theory Spec2Isabelle
  imports Main "HOL-Library.Sublist"
begin

section \<open>Table consolidation of \<open>backend/services/table_extractor.py\<close>\<close>

text \<open>
  The development embeds \<open>TableExtractor.process_tables_sequentially\<close> and
  \<open>TableExtractor.convert_to_structured_format\<close>.  Python text is a \<open>string\<close>, whose
  characters are the code points U+0000 to U+00FF; the text operations \<open>str.lower\<close>,
  \<open>str.strip\<close> and \<open>str.isdigit\<close> are given with their behaviour on all of these code
  points.  A pandas \<open>DataFrame\<close> is a list of column labels together with
  the rows as lists of cells, one cell per label and in label order, because pandas
  addresses the cells by position and allows a label to occur twice.
\<close>

subsection \<open>Python text operations\<close>

text \<open>The code points below U+0100 that \<open>str.lower()\<close> changes: the letters A to Z, and
  the capital letters U+00C0 to U+00DE, among which U+00D7, the multiplication sign, is
  no letter and stays.  The lower-case letter stands 32 places after its capital.\<close>
definition uppercase :: string where
  "uppercase = ''ABCDEFGHIJKLMNOPQRSTUVWXYZ'' @
     [CHR 0xC0, CHR 0xC1, CHR 0xC2, CHR 0xC3, CHR 0xC4, CHR 0xC5, CHR 0xC6, CHR 0xC7,
      CHR 0xC8, CHR 0xC9, CHR 0xCA, CHR 0xCB, CHR 0xCC, CHR 0xCD, CHR 0xCE, CHR 0xCF,
      CHR 0xD0, CHR 0xD1, CHR 0xD2, CHR 0xD3, CHR 0xD4, CHR 0xD5, CHR 0xD6,
      CHR 0xD8, CHR 0xD9, CHR 0xDA, CHR 0xDB, CHR 0xDC, CHR 0xDD, CHR 0xDE]"

definition lowercase :: string where
  "lowercase = ''abcdefghijklmnopqrstuvwxyz'' @
     [CHR 0xE0, CHR 0xE1, CHR 0xE2, CHR 0xE3, CHR 0xE4, CHR 0xE5, CHR 0xE6, CHR 0xE7,
      CHR 0xE8, CHR 0xE9, CHR 0xEA, CHR 0xEB, CHR 0xEC, CHR 0xED, CHR 0xEE, CHR 0xEF,
      CHR 0xF0, CHR 0xF1, CHR 0xF2, CHR 0xF3, CHR 0xF4, CHR 0xF5, CHR 0xF6,
      CHR 0xF8, CHR 0xF9, CHR 0xFA, CHR 0xFB, CHR 0xFC, CHR 0xFD, CHR 0xFE]"

definition lower_char :: "char \<Rightarrow> char" where
  "lower_char c = (case map_of (zip uppercase lowercase) c of Some d \<Rightarrow> d | None \<Rightarrow> c)"

text \<open>\<open>s.lower()\<close>\<close>
definition py_lower :: "string \<Rightarrow> string" where
  "py_lower s = map lower_char s"

text \<open>The code points below U+0100 that \<open>str.strip()\<close> removes, those for which
  \<open>str.isspace()\<close> holds: tab, line feed, vertical tab, form feed, carriage return, the
  four separators 0x1C to 0x1F, the space, the next-line control U+0085 and the
  no-break space U+00A0.\<close>
definition is_space :: "char \<Rightarrow> bool" where
  "is_space c = (c \<in> set [CHR 0x09, CHR 0x0A, CHR 0x0B, CHR 0x0C, CHR 0x0D,
                           CHR 0x1C, CHR 0x1D, CHR 0x1E, CHR 0x1F, CHR 0x20,
                           CHR 0x85, CHR 0xA0])"

text \<open>\<open>s.strip()\<close>\<close>
definition py_strip :: "string \<Rightarrow> string" where
  "py_strip s = rev (dropWhile is_space (rev (dropWhile is_space s)))"

text \<open>The code points below U+0100 that count as digits for \<open>str.isdigit()\<close>: 0 to 9 and
  the superscripts two, three and one (U+00B2, U+00B3, U+00B9).\<close>
definition is_digit_char :: "char \<Rightarrow> bool" where
  "is_digit_char c = (c \<in> set (''0123456789'' @ [CHR 0xB2, CHR 0xB3, CHR 0xB9]))"

text \<open>\<open>s.isdigit()\<close>: false on the empty text.\<close>
definition py_isdigit :: "string \<Rightarrow> bool" where
  "py_isdigit s = (s \<noteq> [] \<and> list_all is_digit_char s)"

text \<open>\<open>k in s\<close> on text: \<open>k\<close> occurs in \<open>s\<close> as a contiguous piece.\<close>
fun py_in :: "string \<Rightarrow> string \<Rightarrow> bool" where
  "py_in k [] = (k = [])"
| "py_in k (c # cs) = (prefix k (c # cs) \<or> py_in k cs)"

text \<open>\<open>sep.join(xs)\<close>\<close>
fun py_join :: "string \<Rightarrow> string list \<Rightarrow> string" where
  "py_join sep [] = []"
| "py_join sep [x] = x"
| "py_join sep (x # y # ys) = x @ sep @ py_join sep (y # ys)"

text \<open>\<open>s.replace(' ', '_')\<close>: only the space character is replaced.\<close>
definition replace_space :: "string \<Rightarrow> string" where
  "replace_space s = map (\<lambda>c. if c = CHR '' '' then CHR ''_'' else c) s"

definition digit_char :: "nat \<Rightarrow> char" where
  "digit_char d = ''0123456789'' ! d"

text \<open>\<open>str(n)\<close> for a natural number: its decimal numeral.\<close>
fun str_nat :: "nat \<Rightarrow> string" where
  "str_nat n = (if n < 10 then [digit_char n] else str_nat (n div 10) @ [digit_char (n mod 10)])"

declare str_nat.simps [simp del]

subsection \<open>Cells, rows, tables and frames\<close>

text \<open>A cell of the engine's output is text or absent; \<open>Null\<close> stands for both \<open>None\<close>
  and \<open>NaN\<close>, which \<open>fillna('')\<close> replaces alike before any cell is read.\<close>
datatype cell = Str string | Null

text \<open>A row of \<open>table['data']\<close>: a Python dict from column label to cell, in insertion
  order.\<close>
type_synonym row = "(string \<times> cell) list"

text \<open>One entry of \<open>tables_json['tables']\<close>.  Of its keys only \<open>columns\<close> and
  \<open>data\<close> decide the result (\<open>table_number\<close> is only printed); an integer label such
  as \<open>0\<close> is given by its text \<open>str(col)\<close>, the only way the code reads it.\<close>
record table =
  columns :: "string list"
  data :: "row list"

record dataframe =
  df_columns :: "string list"
  df_values :: "cell list list"

text \<open>\<open>str(val)\<close> of a cell\<close>
fun str_cell :: "cell \<Rightarrow> string" where
  "str_cell (Str s) = s"
| "str_cell Null = ''nan''"

text \<open>\<open>pd.notna(val)\<close>\<close>
fun notna :: "cell \<Rightarrow> bool" where
  "notna (Str s) = True"
| "notna Null = False"

fun fillna_cell :: "cell \<Rightarrow> cell" where
  "fillna_cell Null = Str ''''"
| "fillna_cell (Str s) = Str s"

text \<open>\<open>df.fillna('')\<close>\<close>
definition fillna :: "dataframe \<Rightarrow> dataframe" where
  "fillna df = df\<lparr>df_values := map (map fillna_cell) (df_values df)\<rparr>"

text \<open>The labels of several label lists in the order in which each is first seen:
  the labels of \<open>acc\<close>, then every new label of \<open>xs\<close>.\<close>
fun append_new :: "'a list \<Rightarrow> 'a list \<Rightarrow> 'a list" where
  "append_new acc [] = acc"
| "append_new acc (x # xs) = append_new (if x \<in> set acc then acc else acc @ [x]) xs"

text \<open>\<open>d.get(k)\<close> on a row\<close>
definition dict_get :: "row \<Rightarrow> string \<Rightarrow> cell option" where
  "dict_get r k = map_of r k"

text \<open>\<open>pd.DataFrame(rows)\<close> for a list of dicts: the columns are the keys of all rows in
  first-seen order, and a row without a key has \<open>NaN\<close> there.\<close>
definition DataFrame :: "row list \<Rightarrow> dataframe" where
  "DataFrame rows =
     (let cols = append_new [] (concat (map (map fst) rows))
      in \<lparr>df_columns = cols,
          df_values = map (\<lambda>r. map (\<lambda>c. case dict_get r c of Some v \<Rightarrow> v | None \<Rightarrow> Null) cols) rows\<rparr>)"

text \<open>\<open>df.empty\<close>: no row or no column.\<close>
definition df_empty :: "dataframe \<Rightarrow> bool" where
  "df_empty df = (df_columns df = [] \<or> df_values df = [])"

subsection \<open>Header resolution of a later table (lines 217 to 246)\<close>

definition header_keywords :: "string list" where
  "header_keywords = [''date'', ''description'', ''amount'', ''balance'', ''transaction'',
     ''credit'', ''debit'', ''particulars'', ''narration'', ''details'', ''ref'', ''cheque'',
     ''check'', ''withdrawal'', ''deposit'']"

text \<open>\<open>' '.join(str(val).lower() for val in first_row.values if pd.notna(val))\<close>\<close>
definition first_row_text :: "cell list \<Rightarrow> string" where
  "first_row_text first_row = py_join '' '' (map (\<lambda>val. py_lower (str_cell val)) (filter notna first_row))"

definition first_row_looks_like_headers :: "dataframe \<Rightarrow> bool" where
  "first_row_looks_like_headers df =
     (case df_values df of
        [] \<Rightarrow> False
      | first_row # _ \<Rightarrow> list_ex (\<lambda>keyword. py_in keyword (first_row_text first_row)) header_keywords)"

text \<open>\<open>[f'Column_{i+1}' for i in range(n)]\<close>\<close>
definition generic_headers :: "nat \<Rightarrow> string list" where
  "generic_headers n = map (\<lambda>i. ''Column_'' @ str_nat (i + 1)) [0..<n]"

definition resolve_headers :: "string list \<Rightarrow> dataframe \<Rightarrow> dataframe" where
  "resolve_headers master_headers df =
     (if list_all py_isdigit (df_columns df) then
        (if first_row_looks_like_headers df then
           (case df_values df of
              [] \<Rightarrow> df
            | first_row # rest \<Rightarrow>
                \<lparr>df_columns = map (\<lambda>val. py_strip (str_cell val)) first_row, df_values = rest\<rparr>)
         else if length (df_columns df) = length master_headers then
           df\<lparr>df_columns := master_headers\<rparr>
         else
           df\<lparr>df_columns := generic_headers (length (df_columns df))\<rparr>)
      else df)"

subsection \<open>Split-column merging (lines 248 to 259)\<close>

datatype error = AttributeError | InvalidIndexError | ValueError | JSONDecodeError

text \<open>\<open>cols.index(x)\<close> for a label that occurs in \<open>cols\<close>\<close>
definition index_of :: "'a \<Rightarrow> 'a list \<Rightarrow> nat" where
  "index_of x cols = length (takeWhile (\<lambda>c. c \<noteq> x) cols)"

definition drop_at :: "nat \<Rightarrow> 'a list \<Rightarrow> 'a list" where
  "drop_at i xs = take i xs @ drop (Suc i) xs"

text \<open>\<open>strip(str(left)) + ' ' + strip(str(right))\<close>, each side after \<open>fillna('')\<close>\<close>
definition merged_cell :: "cell \<Rightarrow> cell \<Rightarrow> cell" where
  "merged_cell left right =
     Str (py_strip (str_cell (fillna_cell left)) @ '' '' @ py_strip (str_cell (fillna_cell right)))"

text \<open>The body of the \<open>try\<close>.  \<open>df[label]\<close> is a frame, not a column, when the label
  occurs more than once, and a frame has no attribute \<open>str\<close>: the body then raises
  \<open>AttributeError\<close> before anything is assigned.\<close>
definition merge_split_body :: "dataframe \<Rightarrow> error + dataframe" where
  "merge_split_body df =
     (let cols = df_columns df; empty_col_index = index_of '''' cols in
      if empty_col_index > 0 then
        (let target_col = cols ! (empty_col_index - 1) in
         if count_list cols target_col \<noteq> 1 \<or> count_list cols '''' \<noteq> 1 then Inl AttributeError
         else Inr \<lparr>df_columns = drop_at empty_col_index cols,
                   df_values = map (\<lambda>r. drop_at empty_col_index
                                   (r[empty_col_index - 1 :=
                                       merged_cell (r ! (empty_col_index - 1)) (r ! empty_col_index)]))
                                 (df_values df)\<rparr>)
      else Inr df)"

text \<open>The \<open>if '' in df.columns: try: ... except Exception\<close> around it: a raised error is
  printed and the frame stays as it was.\<close>
definition merge_split_columns :: "dataframe \<Rightarrow> dataframe" where
  "merge_split_columns df =
     (if '''' \<in> set (df_columns df) then
        (case merge_split_body df of Inl e \<Rightarrow> df | Inr df' \<Rightarrow> df')
      else df)"

subsection \<open>The loop over the later tables (lines 201 to 262)\<close>

text \<open>One pass of the loop body; \<open>None\<close> is a \<open>continue\<close> (the table is skipped).\<close>
definition process_table :: "string list \<Rightarrow> table \<Rightarrow> dataframe option" where
  "process_table master_headers t =
     (if data t = [] then None
      else let df = DataFrame (data t) in
        if df_empty df then None
        else Some (merge_split_columns (resolve_headers master_headers (fillna df))))"

subsection \<open>\<open>pd.concat(frames, ignore_index=True)\<close>\<close>

text \<open>\<open>sum(obj.shape)\<close>\<close>
definition shape_sum :: "dataframe \<Rightarrow> nat" where
  "shape_sum df = length (df_values df) + length (df_columns df)"

text \<open>A row of a frame with unique labels \<open>cols\<close>, laid out under the labels
  \<open>new_cols\<close>: a label the frame does not have gives \<open>NaN\<close>.\<close>
definition reindex_row :: "string list \<Rightarrow> string list \<Rightarrow> cell list \<Rightarrow> cell list" where
  "reindex_row cols new_cols r =
     map (\<lambda>c. case map_of (zip cols r) c of Some v \<Rightarrow> v | None \<Rightarrow> Null) new_cols"

text \<open>pandas drops the frames without rows and columns when another frame has some,
  raises \<open>ValueError\<close> on an empty list, keeps the labels (also repeated ones) when all
  frames have the same label list, and otherwise takes the first-seen union of the
  labels and re-indexes every frame to it, which raises \<open>InvalidIndexError\<close> for a frame
  with a repeated label.\<close>
definition pd_concat :: "dataframe list \<Rightarrow> error + dataframe" where
  "pd_concat dfs =
     (let non_empties = filter (\<lambda>d. shape_sum d > 0) dfs;
          objs = (if non_empties \<noteq> [] then non_empties else dfs)
      in case objs of
           [] \<Rightarrow> Inl ValueError
         | d0 # _ \<Rightarrow>
             if list_all (\<lambda>d. df_columns d = df_columns d0) objs then
               Inr \<lparr>df_columns = df_columns d0, df_values = concat (map df_values objs)\<rparr>
             else if list_ex (\<lambda>d. \<not> distinct (df_columns d)) objs then Inl InvalidIndexError
             else
               (let new_cols = append_new [] (concat (map df_columns objs))
                in Inr \<lparr>df_columns = new_cols,
                         df_values = concat (map (\<lambda>d. map (reindex_row (df_columns d) new_cols)
                                                         (df_values d)) objs)\<rparr>))"

subsection \<open>Grouping by column structure (lines 281 to 362)\<close>

definition get_normalized_column_key :: "string list \<Rightarrow> string list" where
  "get_normalized_column_key cols =
     map (\<lambda>col. let col_lower = py_strip (py_lower col) in
            if py_in ''value'' col_lower \<and> py_in ''date'' col_lower then ''value_date''
            else if col_lower = ''value'' then ''value_date''
            else replace_space col_lower) cols"

definition columns_are_similar :: "string list \<Rightarrow> string list \<Rightarrow> bool" where
  "columns_are_similar cols1 cols2 =
     (if length cols1 \<noteq> length cols2 then False
      else get_normalized_column_key cols1 = get_normalized_column_key cols2)"

text \<open>The dict \<open>column_groups\<close> in insertion order: the key is the label list of the
  group's first frame, the value the list of \<open>(table_number, dataframe)\<close> entries.\<close>
type_synonym column_group = "string list \<times> (nat \<times> dataframe) list"

text \<open>The body of the loop over \<open>enumerate(all_processed_dfs)\<close>: the frame joins the
  first group it is similar to, relabelled to that group's key, or starts a new group
  at the end of the dict.\<close>
fun add_to_groups :: "nat \<Rightarrow> dataframe \<Rightarrow> column_group list \<Rightarrow> column_group list" where
  "add_to_groups n df [] = [(df_columns df, [(n, df)])]"
| "add_to_groups n df ((existing_key, group_data) # groups) =
     (if columns_are_similar (df_columns df) existing_key then
        (existing_key, group_data @ [(n, df\<lparr>df_columns := existing_key\<rparr>)]) # groups
      else (existing_key, group_data) # add_to_groups n df groups)"

text \<open>The loop from the dict \<open>groups\<close>; \<open>n\<close> is \<open>i + 1\<close> for the next frame.\<close>
fun group_frames :: "nat \<Rightarrow> dataframe list \<Rightarrow> column_group list \<Rightarrow> column_group list" where
  "group_frames n [] groups = groups"
| "group_frames n (df # dfs) groups = group_frames (Suc n) dfs (add_to_groups n df groups)"

definition column_groups :: "dataframe list \<Rightarrow> column_group list" where
  "column_groups all_processed_dfs = group_frames 1 all_processed_dfs []"

text \<open>\<open>d[k] = v\<close> on a dict in insertion order\<close>
fun dict_set :: "row \<Rightarrow> string \<Rightarrow> cell \<Rightarrow> row" where
  "dict_set [] k v = [(k, v)]"
| "dict_set ((k', v') # r) k v = (if k' = k then (k', v) # r else (k', v') # dict_set r k v)"

text \<open>\<open>df.to_dict('records')\<close>: one dict per row; of a repeated label the last cell stays.\<close>
definition to_dict_records :: "dataframe \<Rightarrow> row list" where
  "to_dict_records df =
     map (\<lambda>r. foldl (\<lambda>d (k, v). dict_set d k v) [] (zip (df_columns df) r)) (df_values df)"

record individual_table = table +
  table_number :: nat
  row_count :: nat
  merged_from :: "nat list"

text \<open>One entry of \<open>individual_tables\<close>, with \<open>sequential_table_number = group_idx + 1\<close>.\<close>
definition merged_table :: "nat \<Rightarrow> column_group \<Rightarrow> error + individual_table" where
  "merged_table sequential_table_number g =
     (case pd_concat (map snd (snd g)) of
        Inl e \<Rightarrow> Inl e
      | Inr merged_df \<Rightarrow>
          Inr \<lparr>columns = fst g, data = to_dict_records merged_df,
               table_number = sequential_table_number,
               row_count = length (df_values merged_df),
               merged_from = map fst (snd g)\<rparr>)"

fun merged_tables :: "nat \<Rightarrow> column_group list \<Rightarrow> error + individual_table list" where
  "merged_tables n [] = Inr []"
| "merged_tables n (g # gs) =
     (case merged_table n g of
        Inl e \<Rightarrow> Inl e
      | Inr t \<Rightarrow> (case merged_tables (Suc n) gs of Inl e \<Rightarrow> Inl e | Inr ts \<Rightarrow> Inr (t # ts)))"

subsection \<open>The consolidation run on the parsed input (lines 163 to 380)\<close>

text \<open>Of the four results, the frame \<open>final_df\<close> and the list \<open>individual_tables\<close> are
  kept; \<open>table_info\<close> repeats \<open>individual_tables\<close> with three sample rows each, and
  \<open>sample_transactions\<close> is a preview of three rows of \<open>final_df\<close>.\<close>
record consolidated =
  final_df :: dataframe
  individual_tables :: "individual_table list"

text \<open>\<open>return pd.DataFrame(), [], [], []\<close>\<close>
definition empty_output :: consolidated where
  "empty_output = \<lparr>final_df = \<lparr>df_columns = [], df_values = []\<rparr>, individual_tables = []\<rparr>"

text \<open>The test of line 181 on the first table's reported columns\<close>
definition valid_headers :: "string list \<Rightarrow> bool" where
  "valid_headers cols = (cols \<noteq> [] \<and> \<not> list_all py_isdigit cols)"

text \<open>The list \<open>all_processed_dfs\<close> after the loop: the first table's frame, then the
  frame of every later table that is not skipped.\<close>
definition all_processed_dfs :: "table \<Rightarrow> table list \<Rightarrow> dataframe list" where
  "all_processed_dfs first_table later =
     fillna (DataFrame (data first_table)) # List.map_filter (process_table (columns first_table)) later"

definition process_tables :: "table list \<Rightarrow> error + consolidated" where
  "process_tables tables =
     (case tables of
        [] \<Rightarrow> Inr empty_output
      | first_table # later \<Rightarrow>
          if valid_headers (columns first_table) then
            (let dfs = all_processed_dfs first_table later in
             case pd_concat dfs of
               Inl e \<Rightarrow> Inl e
             | Inr cat \<Rightarrow>
                 (case merged_tables 1 (column_groups dfs) of
                    Inl e \<Rightarrow> Inl e
                  | Inr its \<Rightarrow> Inr \<lparr>final_df = fillna cat, individual_tables = its\<rparr>))
          else Inr empty_output)"

subsection \<open>The unicode correction (lines 158 to 161)\<close>

text \<open>
  \<open>json.dumps\<close>, \<open>.replace('/uni', r'\u')\<close> and \<open>json.loads\<close> act on the whole JSON
  text.  The pattern \<open>/uni\<close> has no quote in it and \<open>/\<close> appears nowhere in JSON syntax
  outside a string literal, so every match lies inside the body of one literal, and the
  backslash the replacement brings starts an escape of its own: the step maps each text
  of the input (column label, row key, cell) on its own, and fails when one of them fails.
\<close>

definition backslash :: char where
  "backslash = CHR 0x5C"

definition quote :: char where
  "quote = CHR 0x22"

definition hex_digit :: "nat \<Rightarrow> char" where
  "hex_digit d = ''0123456789abcdef'' ! d"

text \<open>What \<open>json.dumps\<close> (with \<open>ensure_ascii\<close>) writes for one character of a text.\<close>
definition escape_char :: "char \<Rightarrow> string" where
  "escape_char c =
     (if c = backslash then [backslash, backslash]
      else if c = quote then [backslash, quote]
      else if c = CHR 0x08 then [backslash, CHR ''b'']
      else if c = CHR 0x0C then [backslash, CHR ''f'']
      else if c = CHR 0x0A then [backslash, CHR ''n'']
      else if c = CHR 0x0D then [backslash, CHR ''r'']
      else if c = CHR 0x09 then [backslash, CHR ''t'']
      else if (of_char c :: nat) < 0x20 \<or> (of_char c :: nat) > 0x7E then
        [backslash, CHR ''u'', CHR ''0'', CHR ''0'',
         hex_digit ((of_char c :: nat) div 16), hex_digit ((of_char c :: nat) mod 16)]
      else [c])"

text \<open>The body of the string literal \<open>json.dumps\<close> writes for a text.\<close>
definition json_escape :: "string \<Rightarrow> string" where
  "json_escape s = concat (map escape_char s)"

text \<open>\<open>.replace('/uni', r'\u')\<close>: every match, from left to right.\<close>
fun replace_uni :: "string \<Rightarrow> string" where
  "replace_uni [] = []"
| "replace_uni (c # cs) =
     (if prefix ''/uni'' (c # cs) then [backslash, CHR ''u''] @ replace_uni (drop 3 cs)
      else c # replace_uni cs)"

definition is_hex :: "char \<Rightarrow> bool" where
  "is_hex c = (c \<in> set ''0123456789abcdefABCDEF'')"

definition hex_val :: "char \<Rightarrow> nat" where
  "hex_val c = (case map_of (zip ''0123456789abcdefABCDEF''
                   [0, 1, 2, 3, 4, 5, 6, 7, 8, 9, 10, 11, 12, 13, 14, 15, 10, 11, 12, 13, 14, 15]) c of
                 Some v \<Rightarrow> v | None \<Rightarrow> 0)"

definition hex4_val :: "string \<Rightarrow> nat" where
  "hex4_val ds = foldl (\<lambda>v d. 16 * v + hex_val d) 0 ds"

text \<open>The character a two-character escape stands for.\<close>
definition simple_escape :: "char \<Rightarrow> char option" where
  "simple_escape e =
     map_of [(quote, quote), (backslash, backslash), (CHR ''/'', CHR ''/''),
             (CHR ''b'', CHR 0x08), (CHR ''f'', CHR 0x0C), (CHR ''n'', CHR 0x0A),
             (CHR ''r'', CHR 0x0D), (CHR ''t'', CHR 0x09)] e"

text \<open>\<open>json.loads\<close> on the body of a string literal, giving the code units of the text.
  It raises on a backslash that starts no escape, on \<open>\u\<close> without four hexadecimal
  digits after it, on a bare quote and on a bare control character.\<close>
function json_unescape :: "string \<Rightarrow> error + nat list" where
  "json_unescape [] = Inr []"
| "json_unescape (c # cs) =
     (if c = backslash then
        (case cs of
           [] \<Rightarrow> Inl JSONDecodeError
         | e # rest \<Rightarrow>
             if e = CHR ''u'' then
               (if 4 \<le> length rest \<and> list_all is_hex (take 4 rest) then
                  (case json_unescape (drop 4 rest) of
                     Inl x \<Rightarrow> Inl x
                   | Inr r \<Rightarrow> Inr (hex4_val (take 4 rest) # r))
                else Inl JSONDecodeError)
             else
               (case simple_escape e of
                  None \<Rightarrow> Inl JSONDecodeError
                | Some ch \<Rightarrow>
                    (case json_unescape rest of
                       Inl x \<Rightarrow> Inl x
                     | Inr r \<Rightarrow> Inr (of_char ch # r))))
      else if c = quote \<or> (of_char c :: nat) < 0x20 then Inl JSONDecodeError
      else (case json_unescape cs of Inl x \<Rightarrow> Inl x | Inr r \<Rightarrow> Inr (of_char c # r)))"
  by pat_completeness auto
termination
  by (relation "measure length") auto

text \<open>One text through the three steps.\<close>
definition correct_text :: "string \<Rightarrow> error + nat list" where
  "correct_text s = json_unescape (replace_uni (json_escape s))"

text \<open>A \<open>char\<close> holds a code point up to 0xFF.  A corrected text with a unit above that
  (an escape such as \<open>/uni20AC\<close>, or a surrogate pair, which Python joins) is not a text
  of this development: the run then has the outcome \<open>Unrepresentable\<close>, which is no
  Python exception and of which nothing is proved.\<close>
datatype outcome_error = Raised error | Unrepresentable

definition representable :: "nat list \<Rightarrow> bool" where
  "representable units = list_all (\<lambda>u. u < 256) units"

definition corrected :: "string \<Rightarrow> string" where
  "corrected s = (case correct_text s of Inl e \<Rightarrow> s | Inr units \<Rightarrow> map char_of units)"

text \<open>\<open>json.loads\<close> builds a dict from the pairs of an object: a key that comes again
  keeps its place and takes the later value.\<close>
definition loads_object :: "row \<Rightarrow> row" where
  "loads_object pairs = foldl (\<lambda>d (k, v). dict_set d k v) [] pairs"

fun map_cell :: "(string \<Rightarrow> string) \<Rightarrow> cell \<Rightarrow> cell" where
  "map_cell f (Str s) = Str (f s)"
| "map_cell f Null = Null"

definition map_table :: "(string \<Rightarrow> string) \<Rightarrow> table \<Rightarrow> table" where
  "map_table f t =
     \<lparr>columns = map f (columns t),
      data = map (\<lambda>r. loads_object (map (\<lambda>(k, v). (f k, map_cell f v)) r)) (data t)\<rparr>"

fun cell_texts :: "cell \<Rightarrow> string list" where
  "cell_texts (Str s) = [s]"
| "cell_texts Null = []"

text \<open>Every text of a table: the labels, then key and cell of every row entry.\<close>
definition table_texts :: "table \<Rightarrow> string list" where
  "table_texts t = columns t @ concat (map (\<lambda>r. concat (map (\<lambda>(k, v). k # cell_texts v) r)) (data t))"

definition unicode_correction :: "table list \<Rightarrow> outcome_error + table list" where
  "unicode_correction tables =
     (let texts = concat (map table_texts tables) in
      if list_ex (\<lambda>s. isl (correct_text s)) texts then Inl (Raised JSONDecodeError)
      else if list_ex (\<lambda>s. \<not> representable (projr (correct_text s))) texts then Inl Unrepresentable
      else Inr (map (map_table corrected) tables))"

subsection \<open>\<open>process_tables_sequentially\<close>\<close>

definition process_tables_sequentially :: "table list \<Rightarrow> outcome_error + consolidated" where
  "process_tables_sequentially tables_json =
     (case unicode_correction tables_json of
        Inl e \<Rightarrow> Inl e
      | Inr tables \<Rightarrow> (case process_tables tables of Inl e \<Rightarrow> Inl (Raised e) | Inr out \<Rightarrow> Inr out))"

subsection \<open>\<open>convert_to_structured_format\<close> (lines 630 to 669)\<close>

text \<open>The result dict, without the constant entries; \<open>detected_headers\<close> is absent from
  the metadata of an empty frame.\<close>
record structured_format =
  transactions :: "(string \<times> string) list list"
  total_transactions :: nat
  detected_headers :: "string list option"

text \<open>The clean-up of one value of a row.\<close>
definition clean_value :: "cell \<Rightarrow> string" where
  "clean_value v =
     (if \<not> notna v \<or> py_lower (str_cell v) \<in> set [''nan'', ''none'', ''null''] then ''''
      else py_strip (str_cell v))"

text \<open>Under a repeated label \<open>row[col]\<close> is a series, whose truth value in the \<open>if\<close>
  raises \<open>ValueError\<close>.\<close>
definition convert_to_structured_format :: "dataframe \<Rightarrow> error + structured_format" where
  "convert_to_structured_format df =
     (if df_empty df then
        Inr \<lparr>transactions = [], total_transactions = 0, detected_headers = None\<rparr>
      else if \<not> distinct (df_columns df) then Inl ValueError
      else
        Inr \<lparr>transactions = map (\<lambda>r. zip (df_columns df) (map clean_value r)) (df_values df),
             total_transactions = length (df_values df),
             detected_headers = Some (df_columns df)\<rparr>)"

text \<open>Steps 2 and 3 of \<open>_convert_with_config\<close> in \<open>routes/table_convert.py\<close>
  (lines 145 and 158): the consolidation, then the structured format of its frame.\<close>
definition convert_with_config :: "table list \<Rightarrow> outcome_error + structured_format" where
  "convert_with_config raw_tables_data =
     (case process_tables_sequentially raw_tables_data of
        Inl e \<Rightarrow> Inl e
      | Inr out \<Rightarrow>
          (case convert_to_structured_format (final_df out) of
             Inl e \<Rightarrow> Inl (Raised e)
           | Inr parsed_data \<Rightarrow> Inr parsed_data))"

subsection \<open>Frames as pandas keeps them\<close>

text \<open>Every row of a frame has one cell per column label.\<close>
definition well_formed :: "dataframe \<Rightarrow> bool" where
  "well_formed df = list_all (\<lambda>r. length r = length (df_columns df)) (df_values df)"

subsection \<open>Groups and their members\<close>

text \<open>An entry \<open>(n, frame)\<close> of a group with key \<open>k\<close> is the \<open>n\<close>-th processed frame,
  which has the normalized labels of \<open>k\<close>, relabelled to \<open>k\<close>.\<close>
definition member_ok :: "dataframe list \<Rightarrow> string list \<Rightarrow> nat \<times> dataframe \<Rightarrow> bool" where
  "member_ok dfs k e \<longleftrightarrow>
     1 \<le> fst e \<and> fst e \<le> length dfs
     \<and> get_normalized_column_key (df_columns (dfs ! (fst e - 1))) = get_normalized_column_key k
     \<and> snd e = (dfs ! (fst e - 1))\<lparr>df_columns := k\<rparr>"

text \<open>A group has entries, in the order of their numbers, and its key is the label list of
  the frame of its first entry.\<close>
definition group_ok :: "dataframe list \<Rightarrow> column_group \<Rightarrow> bool" where
  "group_ok dfs g \<longleftrightarrow>
     snd g \<noteq> [] \<and> sorted_wrt (<) (map fst (snd g))
     \<and> fst g = df_columns (dfs ! (fst (hd (snd g)) - 1))
     \<and> list_all (member_ok dfs (fst g)) (snd g)"

text \<open>What holds of the dict \<open>column_groups\<close> after every pass of the loop: no two groups
  have the same normalized key, every group is as above, every frame seen so far is in a
  group, and the groups stand in the order of their first entries.\<close>
definition group_invariant :: "dataframe list \<Rightarrow> column_group list \<Rightarrow> bool" where
  "group_invariant dfs gs \<longleftrightarrow>
     distinct (map (\<lambda>g. get_normalized_column_key (fst g)) gs)
     \<and> list_all (group_ok dfs) gs
     \<and> list_all (\<lambda>m. list_ex (\<lambda>g. m \<in> set (map fst (snd g))) gs) [1..<Suc (length dfs)]
     \<and> sorted_wrt (<) (map (\<lambda>g. fst (hd (snd g))) gs)"

text \<open>The frames number \<open>i\<close> and \<open>j\<close> are entries of one group.\<close>
definition same_group :: "column_group list \<Rightarrow> nat \<Rightarrow> nat \<Rightarrow> bool" where
  "same_group gs i j = list_ex (\<lambda>g. i \<in> set (map fst (snd g)) \<and> j \<in> set (map fst (snd g))) gs"

text \<open>The normalization as the specification words it: lower-case and trim, \<open>value\<close> and
  any label with both \<open>value\<close> and \<open>date\<close> become \<open>value_date\<close>, and every remaining
  whitespace character becomes an underscore.\<close>
definition spec_normalized_label :: "string \<Rightarrow> string" where
  "spec_normalized_label col =
     (let l = py_strip (py_lower col) in
      if l = ''value'' \<or> (py_in ''value'' l \<and> py_in ''date'' l) then ''value_date''
      else map (\<lambda>c. if is_space c then CHR ''_'' else c) l)"

subsection \<open>Occurrences of \<open>/uni\<close> that make the correction fail\<close>

text \<open>The text starts with four hexadecimal digits.\<close>
definition four_hex_digits :: "string \<Rightarrow> bool" where
  "four_hex_digits s = (4 \<le> length s \<and> list_all is_hex (take 4 s))"

text \<open>Somewhere in the text \<open>/uni\<close> stands without four hexadecimal digits after it.\<close>
fun bad_uni :: "string \<Rightarrow> bool" where
  "bad_uni [] = False"
| "bad_uni (c # cs) = ((prefix ''/uni'' (c # cs) \<and> \<not> four_hex_digits (drop 3 cs)) \<or> bad_uni cs)"

subsection \<open>Example inputs\<close>

text \<open>A table with detected headers.\<close>
definition statement_page :: table where
  "statement_page =
     \<lparr>columns = [''Date'', ''Amount''],
      data = [[(''Date'', Str ''2023-12-31''), (''Amount'', Str ''5'')]]\<rparr>"

text \<open>A table without detected headers whose first row holds them.\<close>
definition numeric_page :: table where
  "numeric_page =
     \<lparr>columns = [''0'', ''1''],
      data = [[(''0'', Str ''Date''), (''1'', Str ''Amount'')],
              [(''0'', Str ''2024-01-01''), (''1'', Str ''100'')]]\<rparr>"

text \<open>A table of three columns without headers anywhere.\<close>
definition unlabelled_page :: table where
  "unlabelled_page =
     \<lparr>columns = [''0'', ''1'', ''2''],
      data = [[(''0'', Str ''2024-01-02''), (''1'', Str ''Coffee''), (''2'', Str ''4.50'')],
              [(''0'', Str ''2024-01-03''), (''1'', Str ''Books''), (''2'', Null)]]\<rparr>"

text \<open>A table with four detected headers.\<close>
definition ledger_page :: table where
  "ledger_page =
     \<lparr>columns = [''Date'', ''Description'', ''Amount'', ''Balance''],
      data = [[(''Date'', Str ''2024-01-01''), (''Description'', Str ''Opening''),
               (''Amount'', Str ''0''), (''Balance'', Str ''100'')]]\<rparr>"

text \<open>A frame with one unnamed column after the description.\<close>
definition split_frame :: dataframe where
  "split_frame =
     \<lparr>df_columns = [''Date'', ''Description'', '''', ''Amount''],
      df_values = [[Str ''2024-01-02'', Str ''Card payment '', Str '' shop'', Str ''4.50''],
                   [Str ''2024-01-03'', Str ''Transfer'', Null, Str ''10'']]\<rparr>"

text \<open>A frame with two unnamed columns after the description.\<close>
definition twice_split_frame :: dataframe where
  "twice_split_frame =
     \<lparr>df_columns = [''Description'', '''', ''''],
      df_values = [[Str ''Card'', Str ''payment'', Str ''shop'']]\<rparr>"

text \<open>A table with the headers Date and Balance.\<close>
definition balance_page :: table where
  "balance_page =
     \<lparr>columns = [''Date'', ''Balance''],
      data = [[(''Date'', Str ''2023-12-31''), (''Balance'', Str ''7'')]]\<rparr>"

text \<open>A first table whose rows have an unnamed key after the description, and whose
  reported columns differ from the keys of its rows.\<close>
definition split_statement_page :: table where
  "split_statement_page =
     \<lparr>columns = [''Date'', ''Details''],
      data = [[(''Date'', Str ''2024-01-02''), (''Description'', Str ''Card payment ''),
               ('''', Str '' shop''), (''Amount'', Null)]]\<rparr>"

definition split_pages :: "table list" where
  "split_pages = [split_statement_page, balance_page]"

definition split_ledger :: consolidated where
  "split_ledger =
     \<lparr>final_df =
        \<lparr>df_columns = [''Date'', ''Description'', '''', ''Amount'', ''Balance''],
         df_values = [[Str ''2024-01-02'', Str ''Card payment '', Str '' shop'', Str '''', Str ''''],
                      [Str ''2023-12-31'', Str '''', Str '''', Str '''', Str ''7'']]\<rparr>,
      individual_tables =
        [\<lparr>columns = [''Date'', ''Description'', '''', ''Amount''],
          data = [[(''Date'', Str ''2024-01-02''), (''Description'', Str ''Card payment ''),
                   ('''', Str '' shop''), (''Amount'', Str '''')]],
          table_number = 1, row_count = 1, merged_from = [1]\<rparr>,
         \<lparr>columns = [''Date'', ''Balance''],
          data = [[(''Date'', Str ''2023-12-31''), (''Balance'', Str ''7'')]],
          table_number = 2, row_count = 1, merged_from = [2]\<rparr>]\<rparr>"

text \<open>Three tables, the third a repetition of the first.\<close>
definition repeated_pages :: "table list" where
  "repeated_pages = [statement_page, balance_page, statement_page]"

definition repeated_ledger :: consolidated where
  "repeated_ledger =
     \<lparr>final_df =
        \<lparr>df_columns = [''Date'', ''Amount'', ''Balance''],
         df_values = [[Str ''2023-12-31'', Str ''5'', Str ''''],
                      [Str ''2023-12-31'', Str '''', Str ''7''],
                      [Str ''2023-12-31'', Str ''5'', Str '''']]\<rparr>,
      individual_tables =
        [\<lparr>columns = [''Date'', ''Amount''],
          data = [[(''Date'', Str ''2023-12-31''), (''Amount'', Str ''5'')],
                  [(''Date'', Str ''2023-12-31''), (''Amount'', Str ''5'')]],
          table_number = 1, row_count = 2, merged_from = [1, 3]\<rparr>,
         \<lparr>columns = [''Date'', ''Balance''],
          data = [[(''Date'', Str ''2023-12-31''), (''Balance'', Str ''7'')]],
          table_number = 2, row_count = 1, merged_from = [2]\<rparr>]\<rparr>"

definition two_page_ledger :: consolidated where
  "two_page_ledger =
     \<lparr>final_df =
        \<lparr>df_columns = [''Date'', ''Amount'', ''Balance''],
         df_values = [[Str ''2023-12-31'', Str ''5'', Str ''''],
                      [Str ''2023-12-31'', Str '''', Str ''7'']]\<rparr>,
      individual_tables =
        [\<lparr>columns = [''Date'', ''Amount''],
          data = [[(''Date'', Str ''2023-12-31''), (''Amount'', Str ''5'')]],
          table_number = 1, row_count = 1, merged_from = [1]\<rparr>,
         \<lparr>columns = [''Date'', ''Balance''],
          data = [[(''Date'', Str ''2023-12-31''), (''Balance'', Str ''7'')]],
          table_number = 2, row_count = 1, merged_from = [2]\<rparr>]\<rparr>"

definition two_page_format :: structured_format where
  "two_page_format =
     \<lparr>transactions = [[(''Date'', ''2023-12-31''), (''Amount'', ''5''), (''Balance'', '''')],
                      [(''Date'', ''2023-12-31''), (''Amount'', ''''), (''Balance'', ''7'')]],
      total_transactions = 2,
      detected_headers = Some [''Date'', ''Amount'', ''Balance'']\<rparr>"

text \<open>Four processed frames: two that differ in Value and Value Date, and two with the
  same labels in the other order.\<close>
definition value_frames :: "dataframe list" where
  "value_frames =
     [\<lparr>df_columns = [''Value'', ''Particulars''], df_values = [[Str ''01-02'', Str ''Rent'']]\<rparr>,
      \<lparr>df_columns = [''Value Date'', ''Particulars''], df_values = [[Str ''01-03'', Str ''Fee'']]\<rparr>,
      \<lparr>df_columns = [''Date'', ''Amount''], df_values = [[Str ''01-04'', Str ''5'']]\<rparr>,
      \<lparr>df_columns = [''Amount'', ''Date''], df_values = [[Str ''6'', Str ''01-05'']]\<rparr>]"

text \<open>Two frames whose label differs in the whitespace between its words.\<close>
definition newline_frames :: "dataframe list" where
  "newline_frames =
     [\<lparr>df_columns = [''Txn\<newline>Date''], df_values = [[Str ''01-02'']]\<rparr>,
      \<lparr>df_columns = [''Txn Date''], df_values = [[Str ''01-03'']]\<rparr>]"

text \<open>A later table without detected headers whose header row has two blank cells.\<close>
definition blank_headers_page :: table where
  "blank_headers_page =
     \<lparr>columns = [''0'', ''1'', ''2''],
      data = [[(''0'', Str ''Description''), (''1'', Str '' ''), (''2'', Null)],
              [(''0'', Str ''Card''), (''1'', Str ''payment''), (''2'', Str ''shop'')]]\<rparr>"

text \<open>A table with \<open>/uni0041\<close> in a cell, the same table with \<open>A\<close> in its place, and a
  table with \<open>/uni\<close> before text that is no hexadecimal number.\<close>
definition escaped_page :: table where
  "escaped_page =
     \<lparr>columns = [''Date'', ''Payee''],
      data = [[(''Date'', Str ''2024-01-02''), (''Payee'', Str ''/uni0041cme Ltd'')]]\<rparr>"

definition plain_page :: table where
  "plain_page =
     \<lparr>columns = [''Date'', ''Payee''],
      data = [[(''Date'', Str ''2024-01-02''), (''Payee'', Str ''Acme Ltd'')]]\<rparr>"

definition unicorn_page :: table where
  "unicorn_page =
     \<lparr>columns = [''Date'', ''Payee''],
      data = [[(''Date'', Str ''2024-01-02''), (''Payee'', Str ''see /unicorn'')]]\<rparr>"

text \<open>A later table without detected headers whose header row reads Date, Details, Details
  and a blank cell, and its frame after header resolution.\<close>
definition repeated_header_page :: table where
  "repeated_header_page =
     \<lparr>columns = [''0'', ''1'', ''2'', ''3''],
      data = [[(''0'', Str ''Date''), (''1'', Str ''Details''), (''2'', Str ''Details''), (''3'', Str '''')],
              [(''0'', Str ''2024-01-02''), (''1'', Str ''Card''), (''2'', Str ''payment''),
               (''3'', Str ''shop'')]]\<rparr>"

definition repeated_header_frame :: dataframe where
  "repeated_header_frame =
     \<lparr>df_columns = [''Date'', ''Details'', ''Details'', ''''],
      df_values = [[Str ''2024-01-02'', Str ''Card'', Str ''payment'', Str ''shop'']]\<rparr>"

text \<open>A later table without detected headers whose header row ends in one blank cell.\<close>
definition split_header_page :: table where
  "split_header_page =
     \<lparr>columns = [''0'', ''1'', ''2''],
      data = [[(''0'', Str ''Date''), (''1'', Str ''Details''), (''2'', Str '''')],
              [(''0'', Str ''2024-01-02''), (''1'', Str ''Card payment ''), (''2'', Str '' shop'')]]\<rparr>"

text \<open>A later table whose header row has a no-break space before \<open>Date\<close> and a next-line
  control after \<open>Amount\<close>.\<close>
definition padded_page :: table where
  "padded_page =
     \<lparr>columns = [''0'', ''1''],
      data = [[(''0'', Str (CHR 0xA0 # ''Date'')), (''1'', Str (''Amount'' @ [CHR 0x85]))],
              [(''0'', Str ''2024-01-01''), (''1'', Str ''100'')]]\<rparr>"

text \<open>Two frames whose labels differ in case, also of the letter U+00C9, and in the
  whitespace around them.\<close>
definition accent_frames :: "dataframe list" where
  "accent_frames =
     [\<lparr>df_columns = [CHR 0xA0 # ''CAF'' @ [CHR 0xC9], ''Total Due''], df_values = [[Str ''1'', Str ''2'']]\<rparr>,
      \<lparr>df_columns = [''caf'' @ [CHR 0xE9], ''total due ''], df_values = [[Str ''3'', Str ''4'']]\<rparr>]"

section \<open>Properties\<close>

subsection \<open>Frames and the loop body\<close>

lemma length_DataFrame: "length (df_values (DataFrame rows)) = length rows"
  by (simp add: DataFrame_def Let_def)

lemma values_fillna: "df_values (fillna df) = map (map fillna_cell) (df_values df)"
  by (simp add: fillna_def)

lemma columns_fillna: "df_columns (fillna df) = df_columns df"
  by (simp add: fillna_def)

lemma empty_fillna: "df_empty (fillna df) = df_empty df"
  by (simp add: df_empty_def fillna_def)

lemma generic_headers_nonempty: "'''' \<notin> set (generic_headers n)"
  by (auto simp: generic_headers_def)

lemma merge_split_no_empty_label: "'''' \<notin> set (df_columns df) \<Longrightarrow> merge_split_columns df = df"
  by (simp add: merge_split_columns_def)

lemma length_merge_split: "length (df_values (merge_split_columns df)) = length (df_values df)"
  by (auto simp: merge_split_columns_def merge_split_body_def Let_def split: sum.splits if_splits)

lemma process_table_Some:
  "data t \<noteq> [] \<Longrightarrow> \<not> df_empty (DataFrame (data t)) \<Longrightarrow>
   process_table master t = Some (merge_split_columns (resolve_headers master (fillna (DataFrame (data t)))))"
  by (simp add: process_table_def Let_def)

lemma in_map_filter: "x \<in> set xs \<Longrightarrow> f x = Some y \<Longrightarrow> y \<in> set (List.map_filter f xs)"
  by (induction xs) (auto split: option.splits)

subsection \<open>Header row of a later table\<close>

text \<open>
  C1 (amended).  For a table after the first whose frame (its rows, absent cells filled) has
  columns, all of them numeric, and a first row that, lower-cased and joined by single
  spaces, contains a header keyword: header resolution takes the stripped cells of that row
  as the columns and drops the row, and the table is processed to a frame with exactly one
  row fewer than the table has.  (The first table of a run is never resolved this way.)
\<close>
theorem header_row_adopted:
  assumes "df = fillna (DataFrame (data t))"
    and "df_columns df \<noteq> []"
    and "list_all py_isdigit (df_columns df)"
    and "df_values df = first_row # rest"
    and "list_ex (\<lambda>keyword. py_in keyword (first_row_text first_row)) header_keywords"
  shows "resolve_headers master_headers df =
           \<lparr>df_columns = map (\<lambda>val. py_strip (str_cell val)) first_row, df_values = rest\<rparr>
         \<and> (\<exists>d. process_table master_headers t = Some d
                \<and> length (df_values d) + 1 = length (data t))"
proof -
  let ?r = "\<lparr>df_columns = map (\<lambda>val. py_strip (str_cell val)) first_row, df_values = rest\<rparr>"
  have looks: "first_row_looks_like_headers df"
    using assms(4,5) by (simp add: first_row_looks_like_headers_def)
  have r: "resolve_headers master_headers df = ?r"
    using assms(3,4) looks by (simp add: resolve_headers_def)
  have len: "length (df_values df) = length (data t)"
    using assms(1) by (simp add: values_fillna length_DataFrame)
  then have rows: "data t \<noteq> []" using assms(4) by auto
  have "\<not> df_empty df" using assms(2,4) by (simp add: df_empty_def)
  then have ne: "\<not> df_empty (DataFrame (data t))"
    using assms(1) by (simp add: empty_fillna)
  have p: "process_table master_headers t = Some (merge_split_columns ?r)"
    using process_table_Some [OF rows ne] r assms(1) by simp
  have "length (df_values (merge_split_columns ?r)) + 1 = length (data t)"
    using len assms(4) by (simp add: length_merge_split)
  then show ?thesis using r p by simp
qed

theorem header_row_adopted_witness:
  "df_columns (fillna (DataFrame (data numeric_page))) = [''0'', ''1'']
   \<and> list_all py_isdigit (df_columns (fillna (DataFrame (data numeric_page))))
   \<and> list_ex (\<lambda>keyword. py_in keyword (first_row_text [Str ''Date'', Str ''Amount''])) header_keywords
   \<and> resolve_headers (columns statement_page) (fillna (DataFrame (data numeric_page))) =
       \<lparr>df_columns = [''Date'', ''Amount''], df_values = [[Str ''2024-01-01'', Str ''100'']]\<rparr>
   \<and> (\<exists>d. process_table (columns statement_page) numeric_page = Some d
          \<and> length (df_values d) + 1 = length (data numeric_page))
   \<and> resolve_headers (columns statement_page) (fillna (DataFrame (data padded_page))) =
       \<lparr>df_columns = [''Date'', ''Amount''], df_values = [[Str ''2024-01-01'', Str ''100'']]\<rparr>
   \<and> process_tables_sequentially [statement_page, numeric_page] =
       Inr \<lparr>final_df =
              \<lparr>df_columns = [''Date'', ''Amount''],
               df_values = [[Str ''2023-12-31'', Str ''5''], [Str ''2024-01-01'', Str ''100'']]\<rparr>,
            individual_tables =
              [\<lparr>columns = [''Date'', ''Amount''],
                data = [[(''Date'', Str ''2023-12-31''), (''Amount'', Str ''5'')],
                        [(''Date'', Str ''2024-01-01''), (''Amount'', Str ''100'')]],
                table_number = 1, row_count = 2, merged_from = [1, 2]\<rparr>]\<rparr>"
proof -
  have h2: "df_columns (fillna (DataFrame (data numeric_page))) = [''0'', ''1'']" by code_simp
  have h3: "list_all py_isdigit (df_columns (fillna (DataFrame (data numeric_page))))" by code_simp
  have h4: "df_values (fillna (DataFrame (data numeric_page))) =
              [Str ''Date'', Str ''Amount''] # [[Str ''2024-01-01'', Str ''100'']]" by code_simp
  have h5: "list_ex (\<lambda>keyword. py_in keyword (first_row_text [Str ''Date'', Str ''Amount''])) header_keywords"
    by code_simp
  have s: "map (\<lambda>val. py_strip (str_cell val)) [Str ''Date'', Str ''Amount''] = [''Date'', ''Amount'']"
    by code_simp
  have run: "process_tables_sequentially [statement_page, numeric_page] =
       Inr \<lparr>final_df =
              \<lparr>df_columns = [''Date'', ''Amount''],
               df_values = [[Str ''2023-12-31'', Str ''5''], [Str ''2024-01-01'', Str ''100'']]\<rparr>,
            individual_tables =
              [\<lparr>columns = [''Date'', ''Amount''],
                data = [[(''Date'', Str ''2023-12-31''), (''Amount'', Str ''5'')],
                        [(''Date'', Str ''2024-01-01''), (''Amount'', Str ''100'')]],
                table_number = 1, row_count = 2, merged_from = [1, 2]\<rparr>]\<rparr>"
    by code_simp
  have ne: "df_columns (fillna (DataFrame (data numeric_page))) \<noteq> []" by (simp add: h2)
  have pad: "resolve_headers (columns statement_page) (fillna (DataFrame (data padded_page))) =
       \<lparr>df_columns = [''Date'', ''Amount''], df_values = [[Str ''2024-01-01'', Str ''100'']]\<rparr>"
    by code_simp
  from header_row_adopted [OF refl ne h3 h4 h5, of "columns statement_page"] h2 h3 h5 s run pad
  show ?thesis by simp
qed

text \<open>
  C1 fails for the first table: the single-table input of the claim has numeric columns,
  so the run stops at line 186 and returns the empty result, with no columns and no row.
\<close>
theorem first_table_header_row_counterexample:
  "process_tables_sequentially [numeric_page] =
     Inr \<lparr>final_df = \<lparr>df_columns = [], df_values = []\<rparr>, individual_tables = []\<rparr>"
  by code_simp

subsection \<open>A first table without headers\<close>

text \<open>
  C2 (amended).  When the columns of the first parsed table are all numeric, the run
  processes no table and returns the empty result (an empty frame and empty lists) as an
  ordinary return value, the same value it returns for an input without tables; it raises
  no error.
\<close>
theorem numeric_first_table_returns_empty:
  assumes "unicode_correction tables_json = Inr (first_table # later)"
    and "list_all py_isdigit (columns first_table)"
  shows "process_tables_sequentially tables_json = Inr empty_output
         \<and> process_tables_sequentially [] = Inr empty_output"
  using assms
  by (simp add: process_tables_sequentially_def process_tables_def valid_headers_def
      unicode_correction_def)

theorem numeric_first_table_returns_empty_witness:
  "unicode_correction [unlabelled_page, statement_page] = Inr [unlabelled_page, statement_page]
   \<and> list_all py_isdigit (columns unlabelled_page)
   \<and> process_tables_sequentially [unlabelled_page, statement_page] = Inr empty_output"
proof -
  have h1: "unicode_correction [unlabelled_page, statement_page] = Inr [unlabelled_page, statement_page]"
    by code_simp
  have h2: "list_all py_isdigit (columns unlabelled_page)" by code_simp
  from numeric_first_table_returns_empty [OF h1 h2] h1 h2 show ?thesis by simp
qed

text \<open>
  C2 fails as stated: for a first table with the columns 0, 1, 2 and no keyword in its
  first row the call returns normally, with the empty result; nothing is raised.
\<close>
theorem no_master_headers_counterexample:
  "\<not> isl (process_tables_sequentially [unlabelled_page])
   \<and> process_tables_sequentially [unlabelled_page] = Inr empty_output"
  by code_simp

subsection \<open>Split-column merging\<close>

lemma index_of_less: "x \<in> set xs \<Longrightarrow> index_of x xs < length xs"
  unfolding index_of_def by (induction xs) auto

lemma take_index_of: "x \<notin> set (take (index_of x xs) xs)"
  unfolding index_of_def by (induction xs) auto

lemma count_drop_index_of:
  "x \<in> set xs \<Longrightarrow> count_list xs x = 1 \<Longrightarrow> x \<notin> set (drop (Suc (index_of x xs)) xs)"
  unfolding index_of_def by (induction xs) (auto simp: count_list_0_iff split: if_splits)

lemma drop_at_removes:
  "x \<in> set xs \<Longrightarrow> count_list xs x = 1 \<Longrightarrow> x \<notin> set (drop_at (index_of x xs) xs)"
  using take_index_of [of x xs] count_drop_index_of [of x xs] by (simp add: drop_at_def)

lemma drop_at_update:
  "0 < i \<Longrightarrow> i < length r \<Longrightarrow>
   drop_at i (r[i - Suc 0 := x]) = take (i - Suc 0) r @ x # drop (Suc i) r"
  by (cases i) (simp_all add: drop_at_def take_Suc_conv_app_nth)

text \<open>
  What the step does.  Let \<open>i\<close> be the index of the first empty-string label.  When
  \<open>i > 0\<close>, the empty label occurs once and the label at \<open>i - 1\<close> occurs once, merging
  sets every row's cell \<open>i - 1\<close> to \<open>strip(left) + " " + strip(right)\<close> (absent cells read
  as \<open>""\<close>), drops column \<open>i\<close>, and leaves no empty-string label.  When the empty label
  is absent or at index 0, or the body raises (which it does exactly when \<open>i > 0\<close> and the
  empty label or the label at \<open>i - 1\<close> occurs more than once), the frame passes through
  unchanged.  The number of rows never changes.
\<close>
lemma split_column_merge:
  fixes df :: dataframe
  defines "cols \<equiv> df_columns df"
  defines "i \<equiv> index_of '''' (df_columns df)"
  shows "('''' \<in> set cols \<and> 0 < i \<and> count_list cols '''' = 1 \<and> count_list cols (cols ! (i - 1)) = 1
            \<and> (\<forall>r \<in> set (df_values df). length r = length cols)
          \<longrightarrow> df_columns (merge_split_columns df) = take i cols @ drop (Suc i) cols
              \<and> '''' \<notin> set (df_columns (merge_split_columns df))
              \<and> df_values (merge_split_columns df) =
                  map (\<lambda>r. take (i - 1) r
                           @ Str (py_strip (str_cell (fillna_cell (r ! (i - 1)))) @ '' ''
                                  @ py_strip (str_cell (fillna_cell (r ! i))))
                           # drop (Suc i) r) (df_values df))
       \<and> ('''' \<notin> set cols \<or> i = 0 \<or> isl (merge_split_body df) \<longrightarrow> merge_split_columns df = df)
       \<and> (isl (merge_split_body df) \<longleftrightarrow>
            0 < i \<and> (count_list cols (cols ! (i - 1)) \<noteq> 1 \<or> count_list cols '''' \<noteq> 1))
       \<and> length (df_values (merge_split_columns df)) = length (df_values df)"
proof (intro conjI impI)
  assume a: "'''' \<in> set cols \<and> 0 < i \<and> count_list cols '''' = 1 \<and> count_list cols (cols ! (i - 1)) = 1
            \<and> (\<forall>r \<in> set (df_values df). length r = length cols)"
  then have il: "i < length cols"
    using index_of_less [of "''''" cols] by (simp add: i_def cols_def)
  have m: "merge_split_columns df =
             \<lparr>df_columns = drop_at i cols,
              df_values = map (\<lambda>r. drop_at i (r[i - 1 := merged_cell (r ! (i - 1)) (r ! i)])) (df_values df)\<rparr>"
    using a by (simp add: merge_split_columns_def merge_split_body_def Let_def i_def cols_def)
  show "df_columns (merge_split_columns df) = take i cols @ drop (Suc i) cols"
    by (simp add: m drop_at_def)
  show "'''' \<notin> set (df_columns (merge_split_columns df))"
    using a drop_at_removes [of "''''" cols] by (simp add: m i_def cols_def)
  show "df_values (merge_split_columns df) =
          map (\<lambda>r. take (i - 1) r
                   @ Str (py_strip (str_cell (fillna_cell (r ! (i - 1)))) @ '' ''
                          @ py_strip (str_cell (fillna_cell (r ! i))))
                   # drop (Suc i) r) (df_values df)"
    using a il by (simp add: m drop_at_update merged_cell_def)
next
  assume "'''' \<notin> set cols \<or> i = 0 \<or> isl (merge_split_body df)"
  then show "merge_split_columns df = df"
    by (auto simp: merge_split_columns_def merge_split_body_def Let_def i_def cols_def split: sum.splits)
next
  show "isl (merge_split_body df) \<longleftrightarrow>
          0 < i \<and> (count_list cols (cols ! (i - 1)) \<noteq> 1 \<or> count_list cols '''' \<noteq> 1)"
    by (simp add: merge_split_body_def Let_def i_def cols_def)
next
  show "length (df_values (merge_split_columns df)) = length (df_values df)"
    by (rule length_merge_split)
qed

lemma split_column_merge_example:
  "'''' \<in> set (df_columns split_frame) \<and> 0 < index_of '''' (df_columns split_frame)
   \<and> count_list (df_columns split_frame) '''' = 1
   \<and> count_list (df_columns split_frame) (df_columns split_frame ! (index_of '''' (df_columns split_frame) - 1)) = 1
   \<and> list_all (\<lambda>r. length r = length (df_columns split_frame)) (df_values split_frame)
   \<and> df_columns (merge_split_columns split_frame) = [''Date'', ''Description'', ''Amount'']
   \<and> df_values (merge_split_columns split_frame) =
       [[Str ''2024-01-02'', Str ''Card payment shop'', Str ''4.50''],
        [Str ''2024-01-03'', Str ''Transfer '', Str ''10'']]
   \<and> isl (merge_split_body twice_split_frame)
   \<and> merge_split_columns twice_split_frame = twice_split_frame"
proof -
  let ?c = "df_columns split_frame"
  have h1: "'''' \<in> set ?c" by code_simp
  have h2: "0 < index_of '''' ?c" by code_simp
  have h3: "count_list ?c '''' = 1" by code_simp
  have h4: "count_list ?c (?c ! (index_of '''' ?c - 1)) = 1" by code_simp
  have h5: "\<forall>r \<in> set (df_values split_frame). length r = length ?c" by code_simp
  have c: "take (index_of '''' ?c) ?c @ drop (Suc (index_of '''' ?c)) ?c = [''Date'', ''Description'', ''Amount'']"
    by code_simp
  have v: "map (\<lambda>r. take (index_of '''' ?c - 1) r
                   @ Str (py_strip (str_cell (fillna_cell (r ! (index_of '''' ?c - 1)))) @ '' ''
                          @ py_strip (str_cell (fillna_cell (r ! index_of '''' ?c))))
                   # drop (Suc (index_of '''' ?c)) r) (df_values split_frame) =
           [[Str ''2024-01-02'', Str ''Card payment shop'', Str ''4.50''],
            [Str ''2024-01-03'', Str ''Transfer '', Str ''10'']]"
    by code_simp
  have b: "isl (merge_split_body twice_split_frame)" by code_simp
  have h5': "list_all (\<lambda>r. length r = length ?c) (df_values split_frame)" by code_simp
  from split_column_merge [of split_frame] split_column_merge [of twice_split_frame] h1 h2 h3 h4 h5 h5' b
  show ?thesis unfolding c v by simp
qed

text \<open>
  C4.  Where the merge raises, the run aborts.  The later table \<open>repeated_header_page\<close> has
  numeric columns and a header row Date, Details, Details and a blank cell, so its frame
  has one empty-string label, at index 3, after a label that occurs twice.  The body of the
  \<open>try\<close> raises \<open>AttributeError\<close>, which is caught, and the frame passes through unchanged;
  the concatenation of line 268 then raises \<open>InvalidIndexError\<close> on the repeated label, and
  the call raises instead of returning a ledger.  The same holds for a header row with two
  blank cells, whereas a table whose header row ends in one blank cell after labels that
  occur once is merged and enters the ledger.
\<close>
theorem split_repair_failure_aborts_run:
  "resolve_headers (columns statement_page) (fillna (DataFrame (data repeated_header_page)))
     = repeated_header_frame
   \<and> index_of '''' (df_columns repeated_header_frame) = 3
   \<and> count_list (df_columns repeated_header_frame) '''' = 1
   \<and> merge_split_body repeated_header_frame = Inl AttributeError
   \<and> process_table (columns statement_page) repeated_header_page = Some repeated_header_frame
   \<and> process_tables_sequentially [statement_page, repeated_header_page] = Inl (Raised InvalidIndexError)
   \<and> merge_split_body twice_split_frame = Inl AttributeError
   \<and> process_table (columns statement_page) blank_headers_page = Some twice_split_frame
   \<and> process_tables_sequentially [statement_page, blank_headers_page] = Inl (Raised InvalidIndexError)
   \<and> map_sum id final_df (process_tables_sequentially [statement_page, split_header_page]) =
       Inr \<lparr>df_columns = [''Date'', ''Amount'', ''Details''],
            df_values = [[Str ''2023-12-31'', Str ''5'', Str ''''],
                         [Str ''2024-01-02'', Str '''', Str ''Card payment shop'']]\<rparr>"
  by code_simp

theorem split_repair_failure_aborts_run_witness:
  "isl (merge_split_body repeated_header_frame)
   \<and> merge_split_columns repeated_header_frame = repeated_header_frame
   \<and> isl (process_tables_sequentially [statement_page, repeated_header_page])
   \<and> isl (process_tables_sequentially [statement_page, blank_headers_page])"
proof -
  note th = split_repair_failure_aborts_run
  have a: "merge_split_body repeated_header_frame = Inl AttributeError"
    using th by (elim conjE)
  have b: "process_table (columns statement_page) repeated_header_page = Some repeated_header_frame"
    using th by (elim conjE)
  have c: "process_tables_sequentially [statement_page, repeated_header_page]
             = Inl (Raised InvalidIndexError)"
    using th by (elim conjE)
  have d: "process_tables_sequentially [statement_page, blank_headers_page]
             = Inl (Raised InvalidIndexError)"
    using th by (elim conjE)
  have m: "merge_split_columns repeated_header_frame = repeated_header_frame"
    using a by (simp add: merge_split_columns_def)
  show ?thesis using a m c d by simp
qed

subsection \<open>Concatenation of the processed frames\<close>

lemma append_new_append: "append_new acc (xs @ ys) = append_new (append_new acc xs) ys"
  by (induction xs arbitrary: acc) auto

lemma append_new_ext: "\<exists>ext. append_new acc xs = acc @ ext"
proof (induction xs arbitrary: acc)
  case Nil
  then show ?case by simp
next
  case (Cons x xs)
  show ?case
  proof (cases "x \<in> set acc")
    case True
    then show ?thesis using Cons [of acc] by simp
  next
    case False
    obtain ext where "append_new (acc @ [x]) xs = (acc @ [x]) @ ext"
      using Cons [of "acc @ [x]"] by blast
    then show ?thesis using False by simp
  qed
qed

lemma set_append_new: "set (append_new acc xs) = set acc \<union> set xs"
  by (induction xs arbitrary: acc) auto

lemma distinct_append_new: "distinct acc \<Longrightarrow> distinct (append_new acc xs)"
  by (induction xs arbitrary: acc) auto

lemma append_new_distinct: "distinct (acc @ xs) \<Longrightarrow> append_new acc xs = acc @ xs"
  by (induction xs arbitrary: acc) auto

lemma distinct_DataFrame: "distinct (df_columns (DataFrame rows))"
  by (simp add: DataFrame_def Let_def distinct_append_new)

lemma reindex_own:
  "distinct cols \<Longrightarrow> length r = length cols \<Longrightarrow>
   map (\<lambda>c. case map_of (zip cols r) c of Some v \<Rightarrow> v | None \<Rightarrow> Null) cols = r"
proof (induction cols arbitrary: r)
  case Nil
  then show ?case by simp
next
  case (Cons c cols)
  then obtain v r' where r: "r = v # r'" by (cases r) auto
  have notin: "c \<notin> set cols" and d: "distinct cols" and l: "length r' = length cols"
    using Cons.prems r by auto
  have "map (\<lambda>c'. case map_of (zip (c # cols) r) c' of Some v \<Rightarrow> v | None \<Rightarrow> Null) cols
        = map (\<lambda>c'. case map_of (zip cols r') c' of Some v \<Rightarrow> v | None \<Rightarrow> Null) cols"
  proof (rule map_cong [OF refl])
    fix x assume "x \<in> set cols"
    then have "x \<noteq> c" using notin by auto
    then show "(case map_of (zip (c # cols) r) x of Some v \<Rightarrow> v | None \<Rightarrow> Null)
               = (case map_of (zip cols r') x of Some v \<Rightarrow> v | None \<Rightarrow> Null)"
      by (simp add: r)
  qed
  also have "\<dots> = r'" by (rule Cons.IH [OF d l])
  finally show ?case by (simp add: r)
qed

lemma reindex_foreign:
  "set extra \<inter> set cols = {} \<Longrightarrow> length r = length cols \<Longrightarrow>
   map (\<lambda>c. case map_of (zip cols r) c of Some v \<Rightarrow> v | None \<Rightarrow> (Null :: cell)) extra
     = replicate (length extra) Null"
proof -
  assume a: "set extra \<inter> set cols = {}" "length r = length cols"
  have "\<And>c. c \<in> set extra \<Longrightarrow> map_of (zip cols r) c = None"
    using a by (auto simp: map_of_zip_is_None)
  then show ?thesis by (simp add: map_replicate_const [symmetric] cong: map_cong)
qed

lemma reindex_row_extend:
  assumes "distinct (cols @ extra)" and "length r = length cols"
  shows "reindex_row cols (cols @ extra) r = r @ replicate (length extra) Null"
  using assms reindex_own [of cols r] reindex_foreign [of extra cols r]
  by (auto simp: reindex_row_def)

lemma wf_DataFrame: "well_formed (DataFrame rows)"
  by (simp add: well_formed_def DataFrame_def Let_def list_all_iff)

lemma wf_fillna: "well_formed df \<Longrightarrow> well_formed (fillna df)"
  by (simp add: well_formed_def fillna_def list_all_iff)

lemma wf_resolve_headers: "well_formed df \<Longrightarrow> well_formed (resolve_headers master df)"
  by (auto simp: well_formed_def resolve_headers_def list_all_iff generic_headers_def
      first_row_looks_like_headers_def split: list.splits)

lemma length_drop_at: "i < length xs \<Longrightarrow> length (drop_at i xs) = length xs - 1"
  by (simp add: drop_at_def)

lemma wf_merge_split: "well_formed df \<Longrightarrow> well_formed (merge_split_columns df)"
proof -
  assume wf: "well_formed df"
  show ?thesis
  proof (cases "'''' \<in> set (df_columns df)")
    case False
    then show ?thesis using wf by (simp add: merge_split_columns_def)
  next
    case True
    then have il: "index_of '''' (df_columns df) < length (df_columns df)"
      by (rule index_of_less)
    show ?thesis
      using wf il True
      by (auto simp: well_formed_def merge_split_columns_def merge_split_body_def Let_def
          list_all_iff length_drop_at)
  qed
qed

lemma wf_process_table: "process_table master t = Some d \<Longrightarrow> well_formed d"
  by (auto simp: process_table_def Let_def wf_merge_split wf_resolve_headers wf_fillna wf_DataFrame
      split: if_splits)

lemma set_map_filter: "y \<in> set (List.map_filter f xs) \<Longrightarrow> \<exists>x \<in> set xs. f x = Some y"
  by (induction xs) (auto split: option.splits)

lemma wf_all_processed: "d \<in> set (all_processed_dfs first_table later) \<Longrightarrow> well_formed d"
  using set_map_filter [of d "process_table (columns first_table)" later]
  by (auto simp: all_processed_dfs_def wf_fillna wf_DataFrame wf_process_table)

lemma rows_of_kept:
  "concat (map (\<lambda>d. g d (df_values d)) (filter (\<lambda>d. shape_sum d > 0) dfs))
   = concat (map (\<lambda>d. g d (df_values d)) dfs)" if "\<And>d. g d [] = []"
  using that by (induction dfs) (auto simp: shape_sum_def)

lemma columns_of_kept:
  "concat (map df_columns (filter (\<lambda>d. shape_sum d > 0) dfs)) = concat (map df_columns dfs)"
  by (induction dfs) (auto simp: shape_sum_def)

lemma pd_concat_objs:
  "pd_concat dfs =
     (case (if filter (\<lambda>d. shape_sum d > 0) dfs \<noteq> [] then filter (\<lambda>d. shape_sum d > 0) dfs else dfs) of
        [] \<Rightarrow> Inl ValueError
      | d0 # ds \<Rightarrow>
          if list_all (\<lambda>d. df_columns d = df_columns d0) (d0 # ds) then
            Inr \<lparr>df_columns = df_columns d0, df_values = concat (map df_values (d0 # ds))\<rparr>
          else if list_ex (\<lambda>d. \<not> distinct (df_columns d)) (d0 # ds) then Inl InvalidIndexError
          else
            Inr \<lparr>df_columns = append_new [] (concat (map df_columns (d0 # ds))),
                 df_values = concat (map (\<lambda>d. map (reindex_row (df_columns d)
                                  (append_new [] (concat (map df_columns (d0 # ds))))) (df_values d)) (d0 # ds))\<rparr>)"
  unfolding pd_concat_def Let_def by (simp split: list.split)

lemma pd_concat_Inr:
  assumes "pd_concat dfs = Inr cat"
  shows "((\<forall>d \<in> set dfs. df_columns d = df_columns cat \<or> (df_columns d = [] \<and> df_values d = []))
           \<and> (\<exists>d \<in> set dfs. df_columns cat = df_columns d)
           \<and> df_values cat = concat (map df_values dfs))
         \<or> ((\<forall>d \<in> set dfs. distinct (df_columns d))
             \<and> df_columns cat = append_new [] (concat (map df_columns dfs))
             \<and> df_values cat =
                 concat (map (\<lambda>d. map (reindex_row (df_columns d) (df_columns cat)) (df_values d)) dfs))"
proof -
  let ?ne = "filter (\<lambda>d. shape_sum d > 0) dfs"
  define objs where "objs = (if ?ne \<noteq> [] then ?ne else dfs)"
  have pdc: "pd_concat dfs =
     (case objs of
        [] \<Rightarrow> Inl ValueError
      | d0 # ds \<Rightarrow>
          if list_all (\<lambda>d. df_columns d = df_columns d0) (d0 # ds) then
            Inr \<lparr>df_columns = df_columns d0, df_values = concat (map df_values (d0 # ds))\<rparr>
          else if list_ex (\<lambda>d. \<not> distinct (df_columns d)) (d0 # ds) then Inl InvalidIndexError
          else
            Inr \<lparr>df_columns = append_new [] (concat (map df_columns (d0 # ds))),
                 df_values = concat (map (\<lambda>d. map (reindex_row (df_columns d)
                                  (append_new [] (concat (map df_columns (d0 # ds))))) (df_values d)) (d0 # ds))\<rparr>)"
    unfolding objs_def by (rule pd_concat_objs)
  obtain d0 ds where objs: "objs = d0 # ds"
    using assms pdc by (cases objs) simp_all
  have sub: "set objs \<subseteq> set dfs" by (auto simp: objs_def)
  have dropped: "df_values d = [] \<and> df_columns d = []" if "d \<in> set dfs" "d \<notin> set objs" for d
    using that by (auto simp: objs_def shape_sum_def split: if_splits)
  have rows: "concat (map (\<lambda>d. g d (df_values d)) objs) = concat (map (\<lambda>d. g d (df_values d)) dfs)"
    if "\<And>d. g d [] = []" for g :: "dataframe \<Rightarrow> cell list list \<Rightarrow> cell list list"
    using rows_of_kept [of g dfs] that by (simp add: objs_def)
  have cols: "concat (map df_columns objs) = concat (map df_columns dfs)"
    using columns_of_kept [of dfs] by (simp add: objs_def)
  show ?thesis
  proof (cases "list_all (\<lambda>d. df_columns d = df_columns d0) objs")
    case True
    then have cat: "cat = \<lparr>df_columns = df_columns d0, df_values = concat (map df_values objs)\<rparr>"
      using assms pdc by (simp add: objs)
    have v: "concat (map df_values objs) = concat (map df_values dfs)"
      using rows [of "\<lambda>d v. v"] by simp
    have a: "\<forall>d \<in> set dfs. df_columns d = df_columns d0 \<or> (df_columns d = [] \<and> df_values d = [])"
    proof
      fix d assume "d \<in> set dfs"
      then show "df_columns d = df_columns d0 \<or> (df_columns d = [] \<and> df_values d = [])"
        using True dropped [of d] by (cases "d \<in> set objs") (simp_all add: list_all_iff)
    qed
    have "d0 \<in> set dfs" using sub objs by auto
    then have e: "\<exists>d \<in> set dfs. df_columns d0 = df_columns d" by blast
    show ?thesis using a e v by (simp add: cat)
  next
    case neq: False
    have nodup: "\<not> list_ex (\<lambda>d. \<not> distinct (df_columns d)) objs"
    proof
      assume "list_ex (\<lambda>d. \<not> distinct (df_columns d)) objs"
      then have "pd_concat dfs = Inl InvalidIndexError"
        using neq pdc by (simp add: objs)
      then show False using assms by simp
    qed
    let ?new = "append_new [] (concat (map df_columns objs))"
    have cat: "cat = \<lparr>df_columns = ?new,
               df_values = concat (map (\<lambda>d. map (reindex_row (df_columns d) ?new) (df_values d)) objs)\<rparr>"
      using assms neq nodup pdc by (simp add: objs)
    have d: "\<forall>d \<in> set dfs. distinct (df_columns d)"
    proof
      fix d assume "d \<in> set dfs"
      then show "distinct (df_columns d)"
        using nodup dropped [of d] by (cases "d \<in> set objs") (simp_all add: list_ex_iff)
    qed
    have v: "concat (map (\<lambda>d. map (reindex_row (df_columns d) ?new) (df_values d)) objs)
             = concat (map (\<lambda>d. map (reindex_row (df_columns d) ?new) (df_values d)) dfs)"
      using rows [of "\<lambda>d v. map (reindex_row (df_columns d) ?new) v"] by simp
    show ?thesis using d v by (simp add: cat cols)
  qed
qed

lemma run_returns:
  assumes "unicode_correction tables_json = Inr (first_table # later)"
    and "valid_headers (columns first_table)"
    and "process_tables_sequentially tables_json = Inr out"
  shows "\<exists>cat. pd_concat (all_processed_dfs first_table later) = Inr cat \<and> final_df out = fillna cat"
  using assms
  by (auto simp: process_tables_sequentially_def process_tables_def Let_def split: sum.splits)

text \<open>The row of a frame as it stands in the concatenated and filled frame.\<close>
lemma ledger_layout:
  assumes cat: "pd_concat dfs = Inr cat"
    and wf: "\<forall>d \<in> set dfs. well_formed d"
  defines "L \<equiv> df_columns cat"
  defines "layout \<equiv> \<lambda>d r. if df_columns d = L then map fillna_cell r
                            else map fillna_cell (reindex_row (df_columns d) L r)"
  shows "df_values (fillna cat) = concat (map (\<lambda>d. map (layout d) (df_values d)) dfs)"
    and "\<forall>d \<in> set dfs. \<forall>r \<in> set (df_values d).
           length (layout d r) = length L
           \<and> (\<forall>j < length (df_columns d). \<exists>k < length L. L ! k = df_columns d ! j
                  \<and> layout d r ! k = fillna_cell (r ! j))
           \<and> (\<forall>k < length L. L ! k \<notin> set (df_columns d) \<longrightarrow> layout d r ! k = Str '''')"
proof -
  have cases: "((\<forall>d \<in> set dfs. df_columns d = L \<or> (df_columns d = [] \<and> df_values d = []))
                 \<and> df_values cat = concat (map df_values dfs))
               \<or> ((\<forall>d \<in> set dfs. distinct (df_columns d))
                   \<and> L = append_new [] (concat (map df_columns dfs))
                   \<and> df_values cat = concat (map (\<lambda>d. map (reindex_row (df_columns d) L) (df_values d)) dfs))"
    using pd_concat_Inr [OF cat] by (auto simp: L_def)
  have own: "reindex_row (df_columns d) L r = r"
    if "d \<in> set dfs" "r \<in> set (df_values d)" "df_columns d = L" "distinct (df_columns d)" for d r
  proof -
    have "length r = length L" using wf that by (auto simp: well_formed_def list_all_iff)
    then show ?thesis using that reindex_own [of L r] by (simp add: reindex_row_def)
  qed
  show "df_values (fillna cat) = concat (map (\<lambda>d. map (layout d) (df_values d)) dfs)"
    using cases
  proof
    assume a: "(\<forall>d \<in> set dfs. df_columns d = L \<or> (df_columns d = [] \<and> df_values d = []))
                 \<and> df_values cat = concat (map df_values dfs)"
    have "map (map fillna_cell) (df_values d) = map (layout d) (df_values d)" if "d \<in> set dfs" for d
      using a that by (auto simp: layout_def)
    then have eq: "map (\<lambda>d. map (map fillna_cell) (df_values d)) dfs = map (\<lambda>d. map (layout d) (df_values d)) dfs"
      by (blast intro: map_cong [OF refl])
    have "df_values (fillna cat) = concat (map (\<lambda>d. map (map fillna_cell) (df_values d)) dfs)"
      using a by (simp only: values_fillna map_concat map_map comp_def)
    then show ?thesis by (simp only: eq)
  next
    assume b: "(\<forall>d \<in> set dfs. distinct (df_columns d))
                   \<and> L = append_new [] (concat (map df_columns dfs))
                   \<and> df_values cat = concat (map (\<lambda>d. map (reindex_row (df_columns d) L) (df_values d)) dfs)"
    have "map (map fillna_cell) (map (reindex_row (df_columns d) L) (df_values d)) = map (layout d) (df_values d)"
      if "d \<in> set dfs" for d
      using b that own [of d] by (auto simp: layout_def)
    then have eq: "map (\<lambda>d. map (map fillna_cell) (map (reindex_row (df_columns d) L) (df_values d))) dfs
               = map (\<lambda>d. map (layout d) (df_values d)) dfs"
      by (blast intro: map_cong [OF refl])
    have "df_values (fillna cat)
          = concat (map (\<lambda>d. map (map fillna_cell) (map (reindex_row (df_columns d) L) (df_values d))) dfs)"
      using b by (simp only: values_fillna map_concat map_map comp_def)
    then show ?thesis by (simp only: eq)
  qed
  show "\<forall>d \<in> set dfs. \<forall>r \<in> set (df_values d).
           length (layout d r) = length L
           \<and> (\<forall>j < length (df_columns d). \<exists>k < length L. L ! k = df_columns d ! j
                  \<and> layout d r ! k = fillna_cell (r ! j))
           \<and> (\<forall>k < length L. L ! k \<notin> set (df_columns d) \<longrightarrow> layout d r ! k = Str '''')"
  proof (intro ballI)
    fix d r assume d: "d \<in> set dfs" and r: "r \<in> set (df_values d)"
    have len: "length r = length (df_columns d)"
      using wf d r by (auto simp: well_formed_def list_all_iff)
    show "length (layout d r) = length L
           \<and> (\<forall>j < length (df_columns d). \<exists>k < length L. L ! k = df_columns d ! j
                  \<and> layout d r ! k = fillna_cell (r ! j))
           \<and> (\<forall>k < length L. L ! k \<notin> set (df_columns d) \<longrightarrow> layout d r ! k = Str '''')"
    proof (cases "df_columns d = L")
      case True
      then have lay: "layout d r = map fillna_cell r" by (simp add: layout_def)
      show ?thesis using True len by (auto simp: lay)
    next
      case False
      then have lay: "layout d r = map fillna_cell (reindex_row (df_columns d) L r)"
        by (simp add: layout_def)
      have b: "(\<forall>d \<in> set dfs. distinct (df_columns d))
                   \<and> L = append_new [] (concat (map df_columns dfs))"
        using cases False d r by auto
      then have dist: "distinct (df_columns d)" using d by simp
      have sub: "set (df_columns d) \<subseteq> set L" using b d by (auto simp: set_append_new)
      have ii: "\<exists>k < length L. L ! k = df_columns d ! j \<and> layout d r ! k = fillna_cell (r ! j)"
        if j: "j < length (df_columns d)" for j
      proof -
        have "df_columns d ! j \<in> set L" using sub j by auto
        then obtain k where k: "k < length L" "L ! k = df_columns d ! j"
          by (auto simp: in_set_conv_nth)
        have "map_of (zip (df_columns d) r) (df_columns d ! j) = Some (r ! j)"
          using map_of_zip_nth [of "df_columns d" r j] len dist j by simp
        then have "layout d r ! k = fillna_cell (r ! j)"
          using k by (simp add: lay reindex_row_def)
        then show ?thesis using k by blast
      qed
      have iii: "layout d r ! k = Str ''''" if k: "k < length L" "L ! k \<notin> set (df_columns d)" for k
      proof -
        have "map_of (zip (df_columns d) r) (L ! k) = None"
          using k len by (simp add: map_of_zip_is_None)
        then show ?thesis using k by (simp add: lay reindex_row_def)
      qed
      show ?thesis using ii iii by (simp add: lay reindex_row_def)
    qed
  qed
qed

lemma fillna_cell_idem: "fillna_cell (fillna_cell c) = fillna_cell c"
  by (cases c) simp_all

lemma first_frame_in_concat:
  assumes cat: "pd_concat (d1 # rest) = Inr cat" and wf: "well_formed d1"
    and dist: "distinct (df_columns d1)"
  shows "\<exists>extra. df_columns cat = df_columns d1 @ extra
           \<and> take (length (df_values d1)) (df_values cat)
               = map (\<lambda>r. r @ replicate (length extra) Null) (df_values d1)"
  using pd_concat_Inr [OF cat]
proof
  assume a: "(\<forall>d \<in> set (d1 # rest). df_columns d = df_columns cat \<or> (df_columns d = [] \<and> df_values d = []))
           \<and> (\<exists>d \<in> set (d1 # rest). df_columns cat = df_columns d)
           \<and> df_values cat = concat (map df_values (d1 # rest))"
  then have v: "take (length (df_values d1)) (df_values cat) = df_values d1" by simp
  from a have "df_columns d1 = df_columns cat \<or> (df_columns d1 = [] \<and> df_values d1 = [])" by simp
  then show ?thesis
  proof
    assume "df_columns d1 = df_columns cat"
    then have "df_columns cat = df_columns d1 @ []
           \<and> take (length (df_values d1)) (df_values cat)
               = map (\<lambda>r. r @ replicate (length ([] :: string list)) Null) (df_values d1)"
      using v by simp
    then show ?thesis by blast
  next
    assume "df_columns d1 = [] \<and> df_values d1 = []"
    then have "df_columns cat = df_columns d1 @ df_columns cat
           \<and> take (length (df_values d1)) (df_values cat)
               = map (\<lambda>r. r @ replicate (length (df_columns cat)) Null) (df_values d1)"
      by simp
    then show ?thesis by blast
  qed
next
  assume b: "(\<forall>d \<in> set (d1 # rest). distinct (df_columns d))
             \<and> df_columns cat = append_new [] (concat (map df_columns (d1 # rest)))
             \<and> df_values cat =
                 concat (map (\<lambda>d. map (reindex_row (df_columns d) (df_columns cat)) (df_values d)) (d1 # rest))"
  have "df_columns cat = append_new (df_columns d1) (concat (map df_columns rest))"
    using b dist by (simp add: append_new_append append_new_distinct)
  then obtain extra where extra: "df_columns cat = df_columns d1 @ extra"
    using append_new_ext by metis
  have "distinct (df_columns cat)"
    using b by (simp add: distinct_append_new)
  then have de: "distinct (df_columns d1 @ extra)" by (simp add: extra)
  have "map (reindex_row (df_columns d1) (df_columns cat)) (df_values d1)
        = map (\<lambda>r. r @ replicate (length extra) Null) (df_values d1)"
  proof (rule map_cong [OF refl])
    fix r assume "r \<in> set (df_values d1)"
    then have "length r = length (df_columns d1)"
      using wf by (simp add: well_formed_def list_all_iff)
    then show "reindex_row (df_columns d1) (df_columns cat) r = r @ replicate (length extra) Null"
      using reindex_row_extend [OF de] by (simp add: extra)
  qed
  then have "take (length (df_values d1)) (df_values cat)
             = map (\<lambda>r. r @ replicate (length extra) Null) (df_values d1)"
    using b by simp
  then show ?thesis using extra by blast
qed

lemma values_DataFrame:
  "df_values (DataFrame rows) =
     map (\<lambda>r. map (\<lambda>c. case dict_get r c of Some v \<Rightarrow> v | None \<Rightarrow> Null)
                   (append_new [] (concat (map (map fst) rows)))) rows"
  by (simp add: DataFrame_def Let_def)

lemma columns_DataFrame:
  "df_columns (DataFrame rows) = append_new [] (concat (map (map fst) rows))"
  by (simp add: DataFrame_def Let_def)

lemma first_table_in_ledger:
  assumes uc: "unicode_correction tables_json = Inr (first_table # later)"
    and vh: "valid_headers (columns first_table)"
    and run: "process_tables_sequentially tables_json = Inr out"
  defines "keys \<equiv> append_new [] (concat (map (map fst) (data first_table)))"
  shows "hd (all_processed_dfs first_table later) = fillna (DataFrame (data first_table))
         \<and> (\<exists>extra. df_columns (final_df out) = keys @ extra
              \<and> take (length (data first_table)) (df_values (final_df out))
                  = map (\<lambda>r. map (\<lambda>c. fillna_cell (case dict_get r c of Some v \<Rightarrow> v | None \<Rightarrow> Null)) keys
                              @ replicate (length extra) (Str ''''))
                        (data first_table))"
proof -
  let ?d1 = "fillna (DataFrame (data first_table))"
  let ?rest = "List.map_filter (process_table (columns first_table)) later"
  obtain cat where cat: "pd_concat (?d1 # ?rest) = Inr cat" and fin: "final_df out = fillna cat"
    using run_returns [OF uc vh run] by (auto simp: all_processed_dfs_def)
  have wf: "well_formed ?d1" by (simp add: wf_fillna wf_DataFrame)
  have dist: "distinct (df_columns ?d1)" by (simp add: columns_fillna distinct_DataFrame)
  obtain extra where c: "df_columns cat = df_columns ?d1 @ extra"
    and v: "take (length (df_values ?d1)) (df_values cat)
               = map (\<lambda>r. r @ replicate (length extra) Null) (df_values ?d1)"
    using first_frame_in_concat [OF cat wf dist] by blast
  have c': "df_columns (final_df out) = keys @ extra"
    using c by (simp add: fin columns_fillna columns_DataFrame keys_def)
  have l: "length (df_values ?d1) = length (data first_table)"
    by (simp add: values_fillna length_DataFrame)
  have "take (length (data first_table)) (df_values (final_df out))
        = map (map fillna_cell) (take (length (df_values ?d1)) (df_values cat))"
    by (simp add: fin values_fillna take_map length_DataFrame)
  also have "\<dots> = map (map fillna_cell) (map (\<lambda>r. r @ replicate (length extra) Null) (df_values ?d1))"
    by (simp only: v)
  also have "\<dots> = map (\<lambda>r. map (\<lambda>c. fillna_cell (case dict_get r c of Some v \<Rightarrow> v | None \<Rightarrow> Null)) keys
                              @ replicate (length extra) (Str ''''))
                        (data first_table)"
    by (simp add: values_fillna values_DataFrame keys_def comp_def fillna_cell_idem)
  finally have v': "take (length (data first_table)) (df_values (final_df out))
        = map (\<lambda>r. map (\<lambda>c. fillna_cell (case dict_get r c of Some v \<Rightarrow> v | None \<Rightarrow> Null)) keys
                              @ replicate (length extra) (Str ''''))
                        (data first_table)" .
  have "hd (all_processed_dfs first_table later) = ?d1" by (simp add: all_processed_dfs_def)
  then show ?thesis using c' v' by blast
qed

lemma detected_headers_nonempty:
  assumes "convert_to_structured_format df = Inr parsed_data" and "\<not> df_empty df"
  shows "detected_headers parsed_data = Some (df_columns df)"
proof (cases "distinct (df_columns df)")
  case True
  then have "convert_to_structured_format df =
      Inr \<lparr>transactions = map (\<lambda>r. zip (df_columns df) (map clean_value r)) (df_values df),
           total_transactions = length (df_values df),
           detected_headers = Some (df_columns df)\<rparr>"
    using assms(2) by (simp add: convert_to_structured_format_def)
  then have "parsed_data = \<lparr>transactions = map (\<lambda>r. zip (df_columns df) (map clean_value r)) (df_values df),
           total_transactions = length (df_values df),
           detected_headers = Some (df_columns df)\<rparr>"
    using assms(1) by simp
  then show ?thesis by simp
next
  case False
  then have "convert_to_structured_format df = Inl ValueError"
    using assms(2) by (simp add: convert_to_structured_format_def)
  then show ?thesis using assms(1) by simp
qed

lemma detected_headers_empty:
  assumes "convert_to_structured_format df = Inr parsed_data" and "df_empty df"
  shows "detected_headers parsed_data = None"
proof -
  have "convert_to_structured_format df =
      Inr \<lparr>transactions = [], total_transactions = 0, detected_headers = None\<rparr>"
    using assms(2) by (simp add: convert_to_structured_format_def)
  then have "parsed_data = \<lparr>transactions = [], total_transactions = 0, detected_headers = None\<rparr>"
    using assms(1) by simp
  then show ?thesis by simp
qed

subsection \<open>The first table\<close>

text \<open>
  C9.  In a run that returns, the first processed frame is the first table's rows as a
  frame with absent cells filled, untouched by header resolution and split-column merging.
  Its columns are the keys of the rows in first-seen order, whatever the table's
  \<open>columns\<close> entry lists (an empty-string key included); the ledger's columns start
  with them, and the ledger's first rows are the table's rows, cell by cell under these
  keys, an absent cell as \<open>""\<close>, followed by \<open>""\<close> under the columns that only
  later tables have.
\<close>
theorem first_table_as_ingested:
  assumes "unicode_correction tables_json = Inr (first_table # later)"
    and "valid_headers (columns first_table)"
    and "process_tables_sequentially tables_json = Inr out"
  shows "hd (all_processed_dfs first_table later) = fillna (DataFrame (data first_table))
         \<and> (\<exists>extra. df_columns (final_df out)
                  = append_new [] (concat (map (map fst) (data first_table))) @ extra
              \<and> take (length (data first_table)) (df_values (final_df out))
                  = map (\<lambda>r. map (\<lambda>c. fillna_cell (case dict_get r c of Some v \<Rightarrow> v | None \<Rightarrow> Null))
                                   (append_new [] (concat (map (map fst) (data first_table))))
                              @ replicate (length extra) (Str ''''))
                        (data first_table))"
  using assms by (rule first_table_in_ledger)

theorem first_table_as_ingested_witness:
  "unicode_correction split_pages = Inr (split_statement_page # [balance_page])
   \<and> valid_headers (columns split_statement_page)
   \<and> process_tables_sequentially split_pages = Inr split_ledger
   \<and> columns split_statement_page = [''Date'', ''Details'']
   \<and> df_columns (final_df split_ledger) = [''Date'', ''Description'', '''', ''Amount'', ''Balance'']
   \<and> df_values (final_df split_ledger) =
       [[Str ''2024-01-02'', Str ''Card payment '', Str '' shop'', Str '''', Str ''''],
        [Str ''2023-12-31'', Str '''', Str '''', Str '''', Str ''7'']]
   \<and> hd (all_processed_dfs split_statement_page [balance_page])
       = fillna (DataFrame (data split_statement_page))"
proof -
  have h1: "unicode_correction split_pages = Inr (split_statement_page # [balance_page])"
    by code_simp
  have h2: "valid_headers (columns split_statement_page)" by code_simp
  have h3: "process_tables_sequentially split_pages = Inr split_ledger" by code_simp
  have e1: "columns split_statement_page = [''Date'', ''Details'']" by code_simp
  have e2: "df_columns (final_df split_ledger) = [''Date'', ''Description'', '''', ''Amount'', ''Balance'']"
    by (simp add: split_ledger_def)
  have e3: "df_values (final_df split_ledger) =
       [[Str ''2024-01-02'', Str ''Card payment '', Str '' shop'', Str '''', Str ''''],
        [Str ''2023-12-31'', Str '''', Str '''', Str '''', Str ''7'']]"
    by (simp add: split_ledger_def)
  from conjunct1 [OF first_table_as_ingested [OF h1 h2 h3]] h1 h2 h3 e1 e2 e3
  show ?thesis by (intro conjI)
qed

subsection \<open>Row order of the ledger\<close>

lemma filled_fillna: "r \<in> set (df_values (fillna df)) \<Longrightarrow> Null \<notin> set r"
proof -
  assume "r \<in> set (df_values (fillna df))"
  then obtain r0 where r0: "r = map fillna_cell r0" by (auto simp: values_fillna)
  have ne: "Null \<noteq> fillna_cell c" for c by (cases c) simp_all
  show ?thesis unfolding r0 using ne by auto
qed

lemma filled_resolve_headers:
  assumes "\<forall>r \<in> set (df_values df). Null \<notin> set r"
  shows "\<forall>r \<in> set (df_values (resolve_headers master df)). Null \<notin> set r"
  using assms by (auto simp: resolve_headers_def split: list.splits)

lemma set_drop_at: "set (drop_at i xs) \<subseteq> set xs"
  by (auto simp: drop_at_def dest: in_set_takeD in_set_dropD)

lemma filled_merge_split:
  assumes "\<forall>r \<in> set (df_values df). Null \<notin> set r"
  shows "\<forall>r \<in> set (df_values (merge_split_columns df)). Null \<notin> set r"
proof
  fix r assume r: "r \<in> set (df_values (merge_split_columns df))"
  show "Null \<notin> set r"
  proof (cases "merge_split_columns df = df")
    case True
    then show ?thesis using r assms by simp
  next
    case False
    let ?i = "index_of '''' (df_columns df)"
    from False have "df_values (merge_split_columns df) =
        map (\<lambda>r. drop_at ?i (r[?i - 1 := merged_cell (r ! (?i - 1)) (r ! ?i)])) (df_values df)"
      by (auto simp: merge_split_columns_def merge_split_body_def Let_def split: if_splits)
    then obtain r0 where r0: "r0 \<in> set (df_values df)"
      "r = drop_at ?i (r0[?i - 1 := merged_cell (r0 ! (?i - 1)) (r0 ! ?i)])"
      using r by auto
    have "set r \<subseteq> set (r0[?i - 1 := merged_cell (r0 ! (?i - 1)) (r0 ! ?i)])"
      unfolding r0(2) by (rule set_drop_at)
    also have "\<dots> \<subseteq> insert (merged_cell (r0 ! (?i - 1)) (r0 ! ?i)) (set r0)"
      by (rule set_update_subset_insert)
    finally have "set r \<subseteq> insert (merged_cell (r0 ! (?i - 1)) (r0 ! ?i)) (set r0)" .
    moreover have "Null \<notin> set r0" using assms r0(1) by simp
    moreover have "merged_cell a b \<noteq> Null" for a b by (simp add: merged_cell_def)
    ultimately show ?thesis by (metis insertE subsetD)
  qed
qed

lemma filled_process_table:
  assumes "process_table master t = Some d" and "r \<in> set (df_values d)"
  shows "Null \<notin> set r"
proof -
  have d: "d = merge_split_columns (resolve_headers master (fillna (DataFrame (data t))))"
    using assms(1) by (auto simp: process_table_def Let_def split: if_splits)
  have "\<forall>r \<in> set (df_values (fillna (DataFrame (data t)))). Null \<notin> set r"
    using filled_fillna by blast
  then have "\<forall>r \<in> set (df_values (resolve_headers master (fillna (DataFrame (data t))))). Null \<notin> set r"
    by (rule filled_resolve_headers)
  then have "\<forall>r \<in> set (df_values d). Null \<notin> set r"
    unfolding d by (rule filled_merge_split)
  then show ?thesis using assms(2) by simp
qed

lemma filled_all_processed:
  assumes "d \<in> set (all_processed_dfs first_table later)" and "r \<in> set (df_values d)"
  shows "Null \<notin> set r"
proof (cases "d = fillna (DataFrame (data first_table))")
  case True
  then show ?thesis using assms(2) filled_fillna by simp
next
  case False
  then have "d \<in> set (List.map_filter (process_table (columns first_table)) later)"
    using assms(1) by (simp add: all_processed_dfs_def)
  then obtain t where "process_table (columns first_table) t = Some d"
    using set_map_filter [of d "process_table (columns first_table)" later] by blast
  then show ?thesis using assms(2) by (rule filled_process_table)
qed

lemma fillna_filled: "Null \<notin> set r \<Longrightarrow> map fillna_cell r = r"
proof (rule map_idI)
  fix c assume "Null \<notin> set r" "c \<in> set r"
  then have "c \<noteq> Null" by auto
  then show "fillna_cell c = c" by (cases c) simp_all
qed

lemma same_labels_concat:
  assumes uc: "unicode_correction tables_json = Inr (first_table # later)"
    and vh: "valid_headers (columns first_table)"
    and run: "process_tables_sequentially tables_json = Inr out"
    and same: "\<forall>d \<in> set (all_processed_dfs first_table later). df_columns d = df_columns (final_df out)"
  shows "df_values (final_df out) = concat (map df_values (all_processed_dfs first_table later))"
proof -
  let ?dfs = "all_processed_dfs first_table later"
  obtain cat where cat: "pd_concat ?dfs = Inr cat" and fin: "final_df out = fillna cat"
    using run_returns [OF uc vh run] by auto
  have wf: "\<forall>d \<in> set ?dfs. well_formed d"
    using wf_all_processed by auto
  have L: "df_columns (final_df out) = df_columns cat" by (simp add: fin columns_fillna)
  let ?layout = "\<lambda>d r. if df_columns d = df_columns cat then map fillna_cell r
                            else map fillna_cell (reindex_row (df_columns d) (df_columns cat) r)"
  have 1: "df_values (fillna cat) = concat (map (\<lambda>d. map (?layout d) (df_values d)) ?dfs)"
    by (rule ledger_layout(1) [OF cat wf])
  have "map (?layout d) (df_values d) = df_values d" if d: "d \<in> set ?dfs" for d
  proof (rule map_idI)
    fix r assume r: "r \<in> set (df_values d)"
    have "df_columns d = df_columns cat" using same d L by simp
    then have "?layout d r = map fillna_cell r" by simp
    also have "\<dots> = r" using filled_all_processed [OF d r] by (rule fillna_filled)
    finally show "?layout d r = r" .
  qed
  then have "map (\<lambda>d. map (?layout d) (df_values d)) ?dfs = map df_values ?dfs"
    by (blast intro: map_cong [OF refl])
  then show ?thesis using 1 by (simp only: fin)
qed

text \<open>
  C5 (amended).  In a run that returns, the rows of the ledger are the rows of the processed
  frames, frame after frame in table order and row after row in each frame's order, one
  ledger row for every row (a row that two tables have appears twice).  Each ledger row is
  its table's row laid out under the ledger's columns: it has the row's cell under every
  label of the table and \<open>""\<close> under the labels the table does not have.  When every
  processed frame has the ledger's labels, the ledger's rows are exactly the concatenation
  of the frames' rows.
\<close>
theorem ledger_rows_in_table_order:
  assumes uc: "unicode_correction tables_json = Inr (first_table # later)"
    and vh: "valid_headers (columns first_table)"
    and run: "process_tables_sequentially tables_json = Inr out"
  defines "dfs \<equiv> all_processed_dfs first_table later"
  defines "L \<equiv> df_columns (final_df out)"
  shows "(\<exists>layout. df_values (final_df out) = concat (map (\<lambda>d. map (layout d) (df_values d)) dfs)
            \<and> (\<forall>d \<in> set dfs. \<forall>r \<in> set (df_values d).
                  length (layout d r) = length L
                  \<and> (\<forall>j < length (df_columns d). \<exists>k < length L. L ! k = df_columns d ! j
                         \<and> layout d r ! k = fillna_cell (r ! j))
                  \<and> (\<forall>k < length L. L ! k \<notin> set (df_columns d) \<longrightarrow> layout d r ! k = Str '''')))
         \<and> length (df_values (final_df out)) = sum_list (map (\<lambda>d. length (df_values d)) dfs)
         \<and> ((\<forall>d \<in> set dfs. df_columns d = L)
              \<longrightarrow> df_values (final_df out) = concat (map df_values dfs))"
proof -
  obtain cat where cat: "pd_concat dfs = Inr cat" and fin: "final_df out = fillna cat"
    using run_returns [OF uc vh run] by (auto simp: dfs_def)
  have wf: "\<forall>d \<in> set dfs. well_formed d"
    using wf_all_processed by (auto simp: dfs_def)
  have L: "L = df_columns cat" by (simp add: L_def fin columns_fillna)
  let ?layout = "\<lambda>d r. if df_columns d = L then map fillna_cell r
                            else map fillna_cell (reindex_row (df_columns d) L r)"
  have 1: "df_values (final_df out) = concat (map (\<lambda>d. map (?layout d) (df_values d)) dfs)"
    using ledger_layout(1) [OF cat wf] unfolding fin L .
  have 2: "\<forall>d \<in> set dfs. \<forall>r \<in> set (df_values d).
                  length (?layout d r) = length L
                  \<and> (\<forall>j < length (df_columns d). \<exists>k < length L. L ! k = df_columns d ! j
                         \<and> ?layout d r ! k = fillna_cell (r ! j))
                  \<and> (\<forall>k < length L. L ! k \<notin> set (df_columns d) \<longrightarrow> ?layout d r ! k = Str '''')"
    using ledger_layout(2) [OF cat wf] unfolding L by blast
  have 3: "length (df_values (final_df out)) = sum_list (map (\<lambda>d. length (df_values d)) dfs)"
    unfolding 1 by (simp add: length_concat comp_def)
  from 1 2 have "\<exists>layout. df_values (final_df out) = concat (map (\<lambda>d. map (layout d) (df_values d)) dfs)
            \<and> (\<forall>d \<in> set dfs. \<forall>r \<in> set (df_values d).
                  length (layout d r) = length L
                  \<and> (\<forall>j < length (df_columns d). \<exists>k < length L. L ! k = df_columns d ! j
                         \<and> layout d r ! k = fillna_cell (r ! j))
                  \<and> (\<forall>k < length L. L ! k \<notin> set (df_columns d) \<longrightarrow> layout d r ! k = Str ''''))"
    by (intro exI [of _ ?layout] conjI)
  moreover note 3
  moreover have "(\<forall>d \<in> set dfs. df_columns d = L)
              \<longrightarrow> df_values (final_df out) = concat (map df_values dfs)"
  proof
    assume "\<forall>d \<in> set dfs. df_columns d = L"
    then have "\<forall>d \<in> set (all_processed_dfs first_table later).
                 df_columns d = df_columns (final_df out)"
      by (simp add: dfs_def L_def)
    then show "df_values (final_df out) = concat (map df_values dfs)"
      unfolding dfs_def by (rule same_labels_concat [OF uc vh run])
  qed
  ultimately show ?thesis by (intro conjI)
qed


theorem ledger_rows_in_table_order_witness:
  "unicode_correction repeated_pages = Inr (statement_page # [balance_page, statement_page])
   \<and> valid_headers (columns statement_page)
   \<and> process_tables_sequentially repeated_pages = Inr repeated_ledger
   \<and> map df_values (all_processed_dfs statement_page [balance_page, statement_page]) =
       [[[Str ''2023-12-31'', Str ''5'']], [[Str ''2023-12-31'', Str ''7'']], [[Str ''2023-12-31'', Str ''5'']]]
   \<and> df_columns (final_df repeated_ledger) = [''Date'', ''Amount'', ''Balance'']
   \<and> df_values (final_df repeated_ledger) =
       [[Str ''2023-12-31'', Str ''5'', Str ''''],
        [Str ''2023-12-31'', Str '''', Str ''7''],
        [Str ''2023-12-31'', Str ''5'', Str '''']]
   \<and> length (df_values (final_df repeated_ledger)) = 3"
proof -
  have h1: "unicode_correction repeated_pages = Inr (statement_page # [balance_page, statement_page])"
    by code_simp
  have h2: "valid_headers (columns statement_page)" by code_simp
  have h3: "process_tables_sequentially repeated_pages = Inr repeated_ledger" by code_simp
  have e1: "map df_values (all_processed_dfs statement_page [balance_page, statement_page]) =
       [[[Str ''2023-12-31'', Str ''5'']], [[Str ''2023-12-31'', Str ''7'']], [[Str ''2023-12-31'', Str ''5'']]]"
    by code_simp
  have e2: "df_columns (final_df repeated_ledger) = [''Date'', ''Amount'', ''Balance'']"
    by (simp add: repeated_ledger_def)
  have e3: "df_values (final_df repeated_ledger) =
       [[Str ''2023-12-31'', Str ''5'', Str ''''],
        [Str ''2023-12-31'', Str '''', Str ''7''],
        [Str ''2023-12-31'', Str ''5'', Str '''']]"
    by (simp add: repeated_ledger_def)
  have s: "sum_list (map (\<lambda>d. length (df_values d))
             (all_processed_dfs statement_page [balance_page, statement_page])) = 3"
    by code_simp
  have "length (df_values (final_df repeated_ledger)) = 3"
    using conjunct1 [OF conjunct2 [OF ledger_rows_in_table_order [OF h1 h2 h3]]] by (simp only: s)
  with h1 h2 h3 e1 e2 e3 show ?thesis by (intro conjI)
qed

text \<open>
  C5 fails as stated: for a first table with the columns Date and Amount and a second one
  with the columns Date and Balance, every ledger row has three cells, the third or the
  second of them \<open>""\<close>, so the ledger's rows are not the concatenation of the tables' rows.
\<close>
theorem ledger_rows_counterexample:
  "process_tables_sequentially [statement_page, balance_page] = Inr two_page_ledger
   \<and> concat (map df_values (all_processed_dfs statement_page [balance_page]))
       = [[Str ''2023-12-31'', Str ''5''], [Str ''2023-12-31'', Str ''7'']]
   \<and> df_values (final_df two_page_ledger)
       = [[Str ''2023-12-31'', Str ''5'', Str ''''], [Str ''2023-12-31'', Str '''', Str ''7'']]
   \<and> df_values (final_df two_page_ledger)
       \<noteq> concat (map df_values (all_processed_dfs statement_page [balance_page]))"
  by code_simp

subsection \<open>The detected headers\<close>

text \<open>
  C6 (amended).  The \<open>detected_headers\<close> of the structured format are the column labels
  of the whole ledger frame: they start with the first table's labels (the keys of its rows)
  and go on with the labels that only later tables have, so that as a set they are the
  labels of all processed frames together.  For an empty ledger frame the metadata has no
  \<open>detected_headers\<close>.
\<close>
theorem detected_headers_of_ledger:
  assumes uc: "unicode_correction tables_json = Inr (first_table # later)"
    and vh: "valid_headers (columns first_table)"
    and run: "process_tables_sequentially tables_json = Inr out"
    and conv: "convert_to_structured_format (final_df out) = Inr parsed_data"
  shows "(\<not> df_empty (final_df out) \<longrightarrow> detected_headers parsed_data = Some (df_columns (final_df out)))
         \<and> (df_empty (final_df out) \<longrightarrow> detected_headers parsed_data = None)
         \<and> (\<exists>extra. df_columns (final_df out)
                = append_new [] (concat (map (map fst) (data first_table))) @ extra)
         \<and> set (df_columns (final_df out))
             = (\<Union>d \<in> set (all_processed_dfs first_table later). set (df_columns d))"
proof -
  let ?dfs = "all_processed_dfs first_table later"
  obtain cat where cat: "pd_concat ?dfs = Inr cat" and fin: "final_df out = fillna cat"
    using run_returns [OF uc vh run] by auto
  have 1: "\<not> df_empty (final_df out) \<longrightarrow> detected_headers parsed_data = Some (df_columns (final_df out))"
    using detected_headers_nonempty [OF conv] by blast
  have 2: "df_empty (final_df out) \<longrightarrow> detected_headers parsed_data = None"
    using detected_headers_empty [OF conv] by blast
  have 3: "\<exists>extra. df_columns (final_df out)
                = append_new [] (concat (map (map fst) (data first_table))) @ extra"
    using first_table_in_ledger [OF uc vh run] by blast
  have 4: "set (df_columns cat) = (\<Union>d \<in> set ?dfs. set (df_columns d))"
    using pd_concat_Inr [OF cat]
  proof
    assume a: "(\<forall>d \<in> set ?dfs. df_columns d = df_columns cat \<or> (df_columns d = [] \<and> df_values d = []))
           \<and> (\<exists>d \<in> set ?dfs. df_columns cat = df_columns d)
           \<and> df_values cat = concat (map df_values ?dfs)"
    from a have "\<exists>d \<in> set ?dfs. df_columns cat = df_columns d" by (elim conjE)
    then obtain d0 where d0: "d0 \<in> set ?dfs" "df_columns cat = df_columns d0" by (elim bexE)
    have all: "set (df_columns d) \<subseteq> set (df_columns cat)" if "d \<in> set ?dfs" for d
    proof -
      from a have "\<forall>d \<in> set ?dfs. df_columns d = df_columns cat \<or> (df_columns d = [] \<and> df_values d = [])"
        by (elim conjE)
      then have "df_columns d = df_columns cat \<or> (df_columns d = [] \<and> df_values d = [])"
        using that by simp
      then show ?thesis by (elim disjE conjE) simp_all
    qed
    show ?thesis
    proof
      show "set (df_columns cat) \<subseteq> (\<Union>d \<in> set ?dfs. set (df_columns d))"
        unfolding d0(2) using d0(1) by (rule UN_upper)
      show "(\<Union>d \<in> set ?dfs. set (df_columns d)) \<subseteq> set (df_columns cat)"
        by (rule UN_least) (rule all)
    qed
  next
    assume b: "(\<forall>d \<in> set ?dfs. distinct (df_columns d))
             \<and> df_columns cat = append_new [] (concat (map df_columns ?dfs))
             \<and> df_values cat =
                 concat (map (\<lambda>d. map (reindex_row (df_columns d) (df_columns cat)) (df_values d)) ?dfs)"
    from b have c2: "df_columns cat = append_new [] (concat (map df_columns ?dfs))"
      by (elim conjE)
    have "set (df_columns cat) = set (concat (map df_columns ?dfs))"
      unfolding c2 by (simp add: set_append_new)
    then show ?thesis by simp
  qed
  have cf: "df_columns (final_df out) = df_columns cat" by (simp add: fin columns_fillna)
  have 5: "set (df_columns (final_df out)) = (\<Union>d \<in> set ?dfs. set (df_columns d))"
    by (simp only: cf 4)
  from 1 2 3 5 show ?thesis by (intro conjI)
qed

theorem detected_headers_of_ledger_witness:
  "unicode_correction [statement_page, balance_page] = Inr (statement_page # [balance_page])
   \<and> valid_headers (columns statement_page)
   \<and> process_tables_sequentially [statement_page, balance_page] = Inr two_page_ledger
   \<and> convert_to_structured_format (final_df two_page_ledger) = Inr two_page_format
   \<and> \<not> df_empty (final_df two_page_ledger)
   \<and> df_columns (final_df two_page_ledger) = [''Date'', ''Amount'', ''Balance'']
   \<and> detected_headers two_page_format = Some [''Date'', ''Amount'', ''Balance'']"
proof -
  have h1: "unicode_correction [statement_page, balance_page] = Inr (statement_page # [balance_page])"
    by code_simp
  have h2: "valid_headers (columns statement_page)" by code_simp
  have h3: "process_tables_sequentially [statement_page, balance_page] = Inr two_page_ledger"
    by code_simp
  have h4: "convert_to_structured_format (final_df two_page_ledger) = Inr two_page_format"
    by code_simp
  have h5: "\<not> df_empty (final_df two_page_ledger)"
    by (simp add: two_page_ledger_def df_empty_def)
  have e: "df_columns (final_df two_page_ledger) = [''Date'', ''Amount'', ''Balance'']"
    by (simp add: two_page_ledger_def)
  have "detected_headers two_page_format = Some (df_columns (final_df two_page_ledger))"
    using conjunct1 [OF detected_headers_of_ledger [OF h1 h2 h3 h4]] h5 by blast
  then have "detected_headers two_page_format = Some [''Date'', ''Amount'', ''Balance'']"
    by (simp only: e)
  with h1 h2 h3 h4 h5 e show ?thesis by (intro conjI)
qed

text \<open>
  C6 fails as stated: for a first table with the columns Date and Amount and a second one
  with the columns Date and Balance, the detected headers are Date, Amount, Balance, which
  are not the first table's columns.
\<close>
theorem detected_headers_counterexample:
  "convert_with_config [statement_page, balance_page] =
     Inr \<lparr>transactions = [[(''Date'', ''2023-12-31''), (''Amount'', ''5''), (''Balance'', '''')],
                           [(''Date'', ''2023-12-31''), (''Amount'', ''''), (''Balance'', ''7'')]],
          total_transactions = 2,
          detected_headers = Some [''Date'', ''Amount'', ''Balance'']\<rparr>
   \<and> columns statement_page = [''Date'', ''Amount'']"
  by code_simp

subsection \<open>Grouping by column structure\<close>

lemma length_normalized: "length (get_normalized_column_key cols) = length cols"
  by (simp add: get_normalized_column_key_def)

lemma similar_iff:
  "columns_are_similar a b \<longleftrightarrow> get_normalized_column_key a = get_normalized_column_key b"
  using length_normalized [of a] length_normalized [of b]
  by (auto simp: columns_are_similar_def)

lemma group_frames_snoc:
  "group_frames n (dfs @ [df]) gs = add_to_groups (n + length dfs) df (group_frames n dfs gs)"
  by (induction dfs arbitrary: n gs) simp_all

lemma column_groups_snoc:
  "column_groups (dfs @ [df]) = add_to_groups (Suc (length dfs)) df (column_groups dfs)"
  by (simp add: column_groups_def group_frames_snoc)

lemma add_to_groups_new:
  "get_normalized_column_key (df_columns df) \<notin> (\<lambda>g. get_normalized_column_key (fst g)) ` set gs
   \<Longrightarrow> add_to_groups n df gs = gs @ [(df_columns df, [(n, df)])]"
  by (induction gs) (auto simp: similar_iff)

lemma add_to_groups_old:
  "get_normalized_column_key (df_columns df) \<in> (\<lambda>g. get_normalized_column_key (fst g)) ` set gs
   \<Longrightarrow> \<exists>pre k ms post. gs = pre @ (k, ms) # post
         \<and> get_normalized_column_key k = get_normalized_column_key (df_columns df)
         \<and> add_to_groups n df gs = pre @ (k, ms @ [(n, df\<lparr>df_columns := k\<rparr>)]) # post"
proof (induction gs)
  case Nil
  then show ?case by simp
next
  case (Cons g gs)
  obtain k ms where g: "g = (k, ms)" by (cases g)
  show ?case
  proof (cases "get_normalized_column_key k = get_normalized_column_key (df_columns df)")
    case True
    then have "add_to_groups n df (g # gs) = [] @ (k, ms @ [(n, df\<lparr>df_columns := k\<rparr>)]) # gs"
      by (simp add: g similar_iff)
    moreover have "g # gs = [] @ (k, ms) # gs" by (simp add: g)
    ultimately show ?thesis using True by blast
  next
    case False
    then have "get_normalized_column_key (df_columns df)
                 \<in> (\<lambda>g. get_normalized_column_key (fst g)) ` set gs"
      using Cons.prems by (auto simp: g)
    then obtain pre k' ms' post where p: "gs = pre @ (k', ms') # post"
      "get_normalized_column_key k' = get_normalized_column_key (df_columns df)"
      "add_to_groups n df gs = pre @ (k', ms' @ [(n, df\<lparr>df_columns := k'\<rparr>)]) # post"
      using Cons.IH by blast
    have "add_to_groups n df (g # gs) = (g # pre) @ (k', ms' @ [(n, df\<lparr>df_columns := k'\<rparr>)]) # post"
      using False p(3) by (simp add: g similar_iff)
    moreover have "g # gs = (g # pre) @ (k', ms') # post" by (simp add: p(1))
    ultimately show ?thesis using p(2) by blast
  qed
qed

lemma nth_append_pred:
  "Suc 0 \<le> m \<Longrightarrow> m \<le> length xs \<Longrightarrow> (xs @ ys) ! (m - Suc 0) = xs ! (m - Suc 0)"
  by (cases m) (simp_all add: nth_append)

lemma member_ok_bound: "member_ok dfs k e \<Longrightarrow> 1 \<le> fst e \<and> fst e \<le> length dfs"
  by (simp add: member_ok_def)

lemma member_ok_append: "member_ok dfs k e \<Longrightarrow> member_ok (dfs @ [df]) k e"
proof -
  assume m: "member_ok dfs k e"
  have "(dfs @ [df]) ! (fst e - 1) = dfs ! (fst e - 1)"
    using member_ok_bound [OF m] by (simp add: nth_append_pred)
  then show ?thesis using m by (simp add: member_ok_def)
qed

lemma group_ok_nonempty: "group_ok dfs g \<Longrightarrow> snd g \<noteq> []"
  unfolding group_ok_def by (elim conjE)

lemma group_ok_sorted: "group_ok dfs g \<Longrightarrow> sorted_wrt (<) (map fst (snd g))"
  unfolding group_ok_def by (elim conjE)

lemma group_ok_key: "group_ok dfs g \<Longrightarrow> fst g = df_columns (dfs ! (fst (hd (snd g)) - 1))"
  unfolding group_ok_def by (elim conjE)

lemma group_ok_member: "group_ok dfs g \<Longrightarrow> e \<in> set (snd g) \<Longrightarrow> member_ok dfs (fst g) e"
  unfolding group_ok_def list_all_iff by blast

lemma group_okI:
  "snd g \<noteq> [] \<Longrightarrow> sorted_wrt (<) (map fst (snd g))
   \<Longrightarrow> fst g = df_columns (dfs ! (fst (hd (snd g)) - 1))
   \<Longrightarrow> (\<And>e. e \<in> set (snd g) \<Longrightarrow> member_ok dfs (fst g) e) \<Longrightarrow> group_ok dfs g"
  unfolding group_ok_def list_all_iff by blast

lemma group_ok_first: "group_ok dfs g \<Longrightarrow> 1 \<le> fst (hd (snd g)) \<and> fst (hd (snd g)) \<le> length dfs"
proof -
  assume g: "group_ok dfs g"
  have "hd (snd g) \<in> set (snd g)" using group_ok_nonempty [OF g] by simp
  then have "member_ok dfs (fst g) (hd (snd g))" by (rule group_ok_member [OF g])
  then show ?thesis by (rule member_ok_bound)
qed

lemma group_ok_append: "group_ok dfs g \<Longrightarrow> group_ok (dfs @ [df]) g"
proof -
  assume g: "group_ok dfs g"
  have f: "(dfs @ [df]) ! (fst (hd (snd g)) - 1) = dfs ! (fst (hd (snd g)) - 1)"
    using group_ok_first [OF g] by (simp add: nth_append_pred)
  show ?thesis
  proof (rule group_okI)
    show "snd g \<noteq> []" by (rule group_ok_nonempty [OF g])
    show "sorted_wrt (<) (map fst (snd g))" by (rule group_ok_sorted [OF g])
    show "fst g = df_columns ((dfs @ [df]) ! (fst (hd (snd g)) - 1))"
      unfolding f by (rule group_ok_key [OF g])
    show "member_ok (dfs @ [df]) (fst g) e" if "e \<in> set (snd g)" for e
      using group_ok_member [OF g that] by (rule member_ok_append)
  qed
qed

lemma group_ok_new: "group_ok (dfs @ [df]) (df_columns df, [(Suc (length dfs), df)])"
  by (rule group_okI) (simp_all add: member_ok_def)

lemma group_ok_extend:
  assumes g: "group_ok dfs (k, ms)"
    and k: "get_normalized_column_key k = get_normalized_column_key (df_columns df)"
  shows "group_ok (dfs @ [df]) (k, ms @ [(Suc (length dfs), df\<lparr>df_columns := k\<rparr>)])"
proof -
  have g': "group_ok (dfs @ [df]) (k, ms)" using g by (rule group_ok_append)
  have ne: "ms \<noteq> []" using group_ok_nonempty [OF g] by simp
  have "fst e \<le> length dfs" if "e \<in> set ms" for e
    using group_ok_member [OF g, of e] that member_ok_bound [of dfs k e] by simp
  then have bound: "\<forall>e \<in> set ms. fst e < Suc (length dfs)"
    by (simp add: less_Suc_eq_le)
  have s: "sorted_wrt (<) (map fst ms @ [Suc (length dfs)])"
    using group_ok_sorted [OF g] bound by (simp add: sorted_wrt_append)
  have m: "member_ok (dfs @ [df]) k (Suc (length dfs), df\<lparr>df_columns := k\<rparr>)"
    using k by (simp add: member_ok_def)
  show ?thesis
  proof (rule group_okI)
    show "snd (k, ms @ [(Suc (length dfs), df\<lparr>df_columns := k\<rparr>)]) \<noteq> []" by simp
    show "sorted_wrt (<) (map fst (snd (k, ms @ [(Suc (length dfs), df\<lparr>df_columns := k\<rparr>)])))"
      using s by simp
    show "fst (k, ms @ [(Suc (length dfs), df\<lparr>df_columns := k\<rparr>)])
          = df_columns ((dfs @ [df]) ! (fst (hd (snd (k, ms @ [(Suc (length dfs), df\<lparr>df_columns := k\<rparr>)]))) - 1))"
      using group_ok_key [OF g'] ne by simp
    show "member_ok (dfs @ [df]) (fst (k, ms @ [(Suc (length dfs), df\<lparr>df_columns := k\<rparr>)])) e"
      if "e \<in> set (snd (k, ms @ [(Suc (length dfs), df\<lparr>df_columns := k\<rparr>)]))" for e
      using that m group_ok_member [OF g', of e] by auto
  qed
qed

lemma group_invariant_step:
  assumes inv: "group_invariant dfs gs"
  shows "group_invariant (dfs @ [df]) (add_to_groups (Suc (length dfs)) df gs)"
proof -
  let ?n = "Suc (length dfs)"
  let ?ng = "\<lambda>g. get_normalized_column_key (fst g)"
  let ?first = "\<lambda>g :: column_group. fst (hd (snd g))"
  from inv have D: "distinct (map ?ng gs)" and G: "list_all (group_ok dfs) gs"
    and C: "list_all (\<lambda>m. list_ex (\<lambda>g. m \<in> set (map fst (snd g))) gs) [1..<Suc (length dfs)]"
    and S: "sorted_wrt (<) (map ?first gs)"
    by (simp_all add: group_invariant_def)
  have G': "list_all (group_ok (dfs @ [df])) gs"
    using G by (simp add: list_all_iff group_ok_append)
  show ?thesis
  proof (cases "get_normalized_column_key (df_columns df) \<in> ?ng ` set gs")
    case False
    then have a: "add_to_groups ?n df gs = gs @ [(df_columns df, [(?n, df)])]"
      by (rule add_to_groups_new)
    have d: "distinct (map ?ng (gs @ [(df_columns df, [(?n, df)])]))"
      using D False by auto
    have g: "list_all (group_ok (dfs @ [df])) (gs @ [(df_columns df, [(?n, df)])])"
      using G' group_ok_new [of dfs df] by simp
    have c: "list_all (\<lambda>m. list_ex (\<lambda>g. m \<in> set (map fst (snd g))) (gs @ [(df_columns df, [(?n, df)])]))
               [1..<Suc (length (dfs @ [df]))]"
      using C by (auto simp: list_all_iff list_ex_iff)
    have "\<forall>g \<in> set gs. ?first g < ?n"
      using G group_ok_first by (fastforce simp: list_all_iff)
    then have s: "sorted_wrt (<) (map ?first (gs @ [(df_columns df, [(?n, df)])]))"
      using S by (auto simp: sorted_wrt_append)
    show ?thesis unfolding a group_invariant_def using d g c s by blast
  next
    case True
    then obtain pre k ms post where gs: "gs = pre @ (k, ms) # post"
      and k: "get_normalized_column_key k = get_normalized_column_key (df_columns df)"
      and a: "add_to_groups ?n df gs = pre @ (k, ms @ [(?n, df\<lparr>df_columns := k\<rparr>)]) # post"
      using add_to_groups_old [of df gs ?n] by blast
    let ?gs' = "pre @ (k, ms @ [(?n, df\<lparr>df_columns := k\<rparr>)]) # post"
    have d: "distinct (map ?ng ?gs')" using D by (simp add: gs)
    have "group_ok dfs (k, ms)" using G by (simp add: gs)
    then have "group_ok (dfs @ [df]) (k, ms @ [(?n, df\<lparr>df_columns := k\<rparr>)])"
      using k by (rule group_ok_extend)
    then have g: "list_all (group_ok (dfs @ [df])) ?gs'"
      using G' by (simp add: gs)
    have c: "list_all (\<lambda>m. list_ex (\<lambda>g. m \<in> set (map fst (snd g))) ?gs') [1..<Suc (length (dfs @ [df]))]"
      using C by (auto simp: list_all_iff list_ex_iff gs)
    have "group_ok dfs (k, ms)" using G by (simp add: gs)
    then have "ms \<noteq> []" using group_ok_nonempty by fastforce
    then have s: "sorted_wrt (<) (map ?first ?gs')"
      using S by (simp add: gs)
    show ?thesis unfolding a group_invariant_def using d g c s by blast
  qed
qed

lemma group_invariant_column_groups: "group_invariant dfs (column_groups dfs)"
proof (induction dfs rule: rev_induct)
  case Nil
  show ?case by (simp add: group_invariant_def column_groups_def)
next
  case (snoc df dfs)
  then show ?case by (simp add: column_groups_snoc group_invariant_step)
qed

lemma group_invariantD:
  assumes "group_invariant dfs gs"
  shows "distinct (map (\<lambda>g. get_normalized_column_key (fst g)) gs)"
    and "\<And>g. g \<in> set gs \<Longrightarrow> group_ok dfs g"
    and "\<And>m. 1 \<le> m \<Longrightarrow> m \<le> length dfs \<Longrightarrow> \<exists>g \<in> set gs. m \<in> set (map fst (snd g))"
    and "sorted_wrt (<) (map (\<lambda>g. fst (hd (snd g))) gs)"
proof -
  from assms have D: "distinct (map (\<lambda>g. get_normalized_column_key (fst g)) gs)"
    and G: "list_all (group_ok dfs) gs"
    and C: "list_all (\<lambda>m. list_ex (\<lambda>g. m \<in> set (map fst (snd g))) gs) [1..<Suc (length dfs)]"
    and S: "sorted_wrt (<) (map (\<lambda>g. fst (hd (snd g))) gs)"
    unfolding group_invariant_def by blast+
  show "distinct (map (\<lambda>g. get_normalized_column_key (fst g)) gs)" by (rule D)
  show "\<And>g. g \<in> set gs \<Longrightarrow> group_ok dfs g" using G by (simp add: list_all_iff)
  show "\<exists>g \<in> set gs. m \<in> set (map fst (snd g))" if "1 \<le> m" "m \<le> length dfs" for m
  proof -
    have "m \<in> set [1..<Suc (length dfs)]" using that by auto
    then have "list_ex (\<lambda>g. m \<in> set (map fst (snd g))) gs"
      using C unfolding list_all_iff by blast
    then show ?thesis unfolding list_ex_iff .
  qed
  show "sorted_wrt (<) (map (\<lambda>g. fst (hd (snd g))) gs)" by (rule S)
qed

lemma member_key:
  assumes "group_ok dfs g" and "m \<in> set (map fst (snd g))"
  shows "get_normalized_column_key (df_columns (dfs ! (m - 1))) = get_normalized_column_key (fst g)"
proof -
  obtain e where e: "e \<in> set (snd g)" "fst e = m" using assms(2) by auto
  have "member_ok dfs (fst g) e" using assms(1) e(1) by (rule group_ok_member)
  then show ?thesis using e(2) by (simp add: member_ok_def)
qed

lemma same_group_iff:
  assumes "1 \<le> i" "i \<le> length dfs" "1 \<le> j" "j \<le> length dfs"
  shows "same_group (column_groups dfs) i j \<longleftrightarrow>
           get_normalized_column_key (df_columns (dfs ! (i - 1)))
             = get_normalized_column_key (df_columns (dfs ! (j - 1)))"
proof
  note inv = group_invariantD [OF group_invariant_column_groups [of dfs]]
  assume "same_group (column_groups dfs) i j"
  then obtain g where g: "g \<in> set (column_groups dfs)"
    "i \<in> set (map fst (snd g))" "j \<in> set (map fst (snd g))"
    unfolding same_group_def list_ex_iff by blast
  show "get_normalized_column_key (df_columns (dfs ! (i - 1)))
             = get_normalized_column_key (df_columns (dfs ! (j - 1)))"
    using member_key [OF inv(2) [OF g(1)] g(2)] member_key [OF inv(2) [OF g(1)] g(3)] by simp
next
  note inv = group_invariantD [OF group_invariant_column_groups [of dfs]]
  assume eq: "get_normalized_column_key (df_columns (dfs ! (i - 1)))
             = get_normalized_column_key (df_columns (dfs ! (j - 1)))"
  obtain gi where gi: "gi \<in> set (column_groups dfs)" "i \<in> set (map fst (snd gi))"
    using inv(3) [OF assms(1,2)] by blast
  obtain gj where gj: "gj \<in> set (column_groups dfs)" "j \<in> set (map fst (snd gj))"
    using inv(3) [OF assms(3,4)] by blast
  have "get_normalized_column_key (fst gi) = get_normalized_column_key (fst gj)"
    using member_key [OF inv(2) [OF gi(1)] gi(2)] member_key [OF inv(2) [OF gj(1)] gj(2)] eq by simp
  moreover have "inj_on (\<lambda>g. get_normalized_column_key (fst g)) (set (column_groups dfs))"
    using inv(1) by (simp add: distinct_map)
  ultimately have "gi = gj" using gi(1) gj(1) by (auto dest: inj_onD)
  then show "same_group (column_groups dfs) i j"
    unfolding same_group_def list_ex_iff using gi gj by blast
qed

lemma members_relabelled:
  "list_all (\<lambda>g. fst g = df_columns (dfs ! (fst (hd (snd g)) - 1))
               \<and> list_all (\<lambda>e. snd e = (dfs ! (fst e - 1))\<lparr>df_columns := fst g\<rparr>) (snd g))
            (column_groups dfs)"
proof -
  note inv = group_invariantD [OF group_invariant_column_groups [of dfs]]
  have "fst g = df_columns (dfs ! (fst (hd (snd g)) - 1))
         \<and> list_all (\<lambda>e. snd e = (dfs ! (fst e - 1))\<lparr>df_columns := fst g\<rparr>) (snd g)"
    if g: "g \<in> set (column_groups dfs)" for g
  proof
    show "fst g = df_columns (dfs ! (fst (hd (snd g)) - 1))"
      by (rule group_ok_key [OF inv(2) [OF g]])
    have "snd e = (dfs ! (fst e - 1))\<lparr>df_columns := fst g\<rparr>" if "e \<in> set (snd g)" for e
      using group_ok_member [OF inv(2) [OF g] that] by (simp add: member_ok_def)
    then show "list_all (\<lambda>e. snd e = (dfs ! (fst e - 1))\<lparr>df_columns := fst g\<rparr>) (snd g)"
      by (simp add: list_all_iff)
  qed
  then show ?thesis by (simp add: list_all_iff)
qed

lemma normalized_key:
  "get_normalized_column_key cols =
     map (\<lambda>col. let l = py_strip (py_lower col) in
            if l = ''value'' \<or> (py_in ''value'' l \<and> py_in ''date'' l) then ''value_date''
            else map (\<lambda>c. if c = CHR '' '' then CHR ''_'' else c) l) cols"
  by (auto simp: get_normalized_column_key_def replace_space_def Let_def)

text \<open>
  C3 (amended).  Two processed frames are entries of the same group if and only if the
  normalized lists of their column labels are equal, position by position, where a label
  is normalized by lower-casing and trimming it, then mapping \<open>value\<close> and every label with
  both \<open>value\<close> and \<open>date\<close> to \<open>value_date\<close>, and otherwise replacing every space
  character (not other whitespace) by an underscore; this is what
  \<open>get_normalized_column_key\<close> computes.  Every entry of a group is its frame relabelled
  to the group's key, and the key is the original label list of the group's first entry.
\<close>
theorem grouped_iff_same_normalized_key:
  fixes dfs :: "dataframe list"
  assumes "1 \<le> i" "i \<le> length dfs" "1 \<le> j" "j \<le> length dfs"
  defines "normalized \<equiv> \<lambda>col. (let l = py_strip (py_lower col) in
              if l = ''value'' \<or> (py_in ''value'' l \<and> py_in ''date'' l) then ''value_date''
              else map (\<lambda>c. if c = CHR '' '' then CHR ''_'' else c) l)"
  shows "(same_group (column_groups dfs) i j \<longleftrightarrow>
            map normalized (df_columns (dfs ! (i - 1))) = map normalized (df_columns (dfs ! (j - 1))))
         \<and> (same_group (column_groups dfs) i j \<longleftrightarrow>
            get_normalized_column_key (df_columns (dfs ! (i - 1)))
              = get_normalized_column_key (df_columns (dfs ! (j - 1))))
         \<and> list_all (\<lambda>g. fst g = df_columns (dfs ! (fst (hd (snd g)) - 1))
               \<and> list_all (\<lambda>e. snd e = (dfs ! (fst e - 1))\<lparr>df_columns := fst g\<rparr>) (snd g))
              (column_groups dfs)"
proof -
  have k: "get_normalized_column_key cols = map normalized cols" for cols
    unfolding normalized_def by (rule normalized_key)
  have a: "same_group (column_groups dfs) i j \<longleftrightarrow>
            get_normalized_column_key (df_columns (dfs ! (i - 1)))
              = get_normalized_column_key (df_columns (dfs ! (j - 1)))"
    by (rule same_group_iff [OF assms(1-4)])
  have b: "same_group (column_groups dfs) i j \<longleftrightarrow>
            map normalized (df_columns (dfs ! (i - 1))) = map normalized (df_columns (dfs ! (j - 1)))"
    using a unfolding k .
  from b a members_relabelled [of dfs] show ?thesis by (intro conjI)
qed

theorem grouped_iff_same_normalized_key_witness:
  "same_group (column_groups value_frames) 1 2
   \<and> \<not> same_group (column_groups value_frames) 3 4
   \<and> same_group (column_groups accent_frames) 1 2
   \<and> get_normalized_column_key [CHR 0xA0 # ''CAF'' @ [CHR 0xC9], ''Total Due'', '' Txn  Date '']
       = [''caf'' @ [CHR 0xE9], ''total_due'', ''txn__date'']
   \<and> get_normalized_column_key [''Value'', ''Particulars''] = [''value_date'', ''particulars'']
   \<and> get_normalized_column_key [''Value Date'', ''Particulars''] = [''value_date'', ''particulars'']
   \<and> map fst (column_groups value_frames)
       = [[''Value'', ''Particulars''], [''Date'', ''Amount''], [''Amount'', ''Date'']]
   \<and> map (\<lambda>g. map (\<lambda>e. (fst e, df_columns (snd e))) (snd g)) (column_groups value_frames)
       = [[(1, [''Value'', ''Particulars'']), (2, [''Value'', ''Particulars''])],
          [(3, [''Date'', ''Amount''])], [(4, [''Amount'', ''Date''])]]"
proof -
  have l: "length value_frames = 4" by (simp add: value_frames_def)
  have k12: "get_normalized_column_key (df_columns (value_frames ! (1 - 1)))
             = get_normalized_column_key (df_columns (value_frames ! (2 - 1)))" by code_simp
  have k34: "get_normalized_column_key (df_columns (value_frames ! (3 - 1)))
             \<noteq> get_normalized_column_key (df_columns (value_frames ! (4 - 1)))" by code_simp
  have a: "same_group (column_groups value_frames) 1 2"
    using conjunct1 [OF conjunct2 [OF grouped_iff_same_normalized_key [of 1 value_frames 2]]] k12 l
    by simp
  have b: "\<not> same_group (column_groups value_frames) 3 4"
    using conjunct1 [OF conjunct2 [OF grouped_iff_same_normalized_key [of 3 value_frames 4]]] k34 l
    by simp
  have l': "length accent_frames = 2" by (simp add: accent_frames_def)
  have k': "get_normalized_column_key (df_columns (accent_frames ! (1 - 1)))
             = get_normalized_column_key (df_columns (accent_frames ! (2 - 1)))" by code_simp
  have a': "same_group (column_groups accent_frames) 1 2"
    using conjunct1 [OF conjunct2 [OF grouped_iff_same_normalized_key [of 1 accent_frames 2]]] k' l'
    by simp
  have n: "get_normalized_column_key [CHR 0xA0 # ''CAF'' @ [CHR 0xC9], ''Total Due'', '' Txn  Date '']
       = [''caf'' @ [CHR 0xE9], ''total_due'', ''txn__date'']"
    by code_simp
  have c: "get_normalized_column_key [''Value'', ''Particulars''] = [''value_date'', ''particulars'']"
    by code_simp
  have d: "get_normalized_column_key [''Value Date'', ''Particulars''] = [''value_date'', ''particulars'']"
    by code_simp
  have e: "map fst (column_groups value_frames)
       = [[''Value'', ''Particulars''], [''Date'', ''Amount''], [''Amount'', ''Date'']]"
    by code_simp
  have f: "map (\<lambda>g. map (\<lambda>e. (fst e, df_columns (snd e))) (snd g)) (column_groups value_frames)
       = [[(1, [''Value'', ''Particulars'']), (2, [''Value'', ''Particulars''])],
          [(3, [''Date'', ''Amount''])], [(4, [''Amount'', ''Date''])]]"
    by code_simp
  from a b a' n c d e f show ?thesis by (intro conjI)
qed

text \<open>
  C3 fails with the normalization as the claim words it: the labels \<open>Txn<newline>Date\<close>
  and \<open>Txn Date\<close> are equal once all whitespace is replaced by underscores, but the code
  replaces the space only and puts the two frames into different groups.
\<close>
theorem whitespace_normalization_counterexample:
  "map spec_normalized_label (df_columns (newline_frames ! 0))
     = map spec_normalized_label (df_columns (newline_frames ! 1))
   \<and> \<not> same_group (column_groups newline_frames) 1 2"
  by code_simp

lemma pd_concat_same_columns:
  assumes ne: "dfs \<noteq> []" and same: "\<forall>d \<in> set dfs. df_columns d = k"
  shows "pd_concat dfs = Inr \<lparr>df_columns = k, df_values = concat (map df_values dfs)\<rparr>"
proof -
  let ?ne = "filter (\<lambda>d. shape_sum d > 0) dfs"
  define objs where "objs = (if ?ne \<noteq> [] then ?ne else dfs)"
  have sub: "set objs \<subseteq> set dfs" by (auto simp: objs_def)
  have nonempty: "objs \<noteq> []" using ne by (simp add: objs_def)
  then obtain d0 ds where objs: "objs = d0 # ds" by (cases objs) auto
  have all: "list_all (\<lambda>d. df_columns d = df_columns d0) (d0 # ds)"
    using same sub unfolding objs [symmetric] list_all_iff by (metis list.set_intros(1) objs subsetD)
  have k: "df_columns d0 = k" using same sub objs by auto
  have v: "concat (map df_values objs) = concat (map df_values dfs)"
    using rows_of_kept [of "\<lambda>d v. v" dfs] by (simp add: objs_def)
  have "pd_concat dfs = Inr \<lparr>df_columns = df_columns d0, df_values = concat (map df_values (d0 # ds))\<rparr>"
    using all unfolding pd_concat_objs objs_def [symmetric] objs by simp
  then show ?thesis using k v by (simp add: objs)
qed

lemma merged_table_ok:
  assumes g: "group_ok dfs g"
  shows "merged_table n g =
           Inr \<lparr>columns = fst g, data = to_dict_records
                   \<lparr>df_columns = fst g, df_values = concat (map (\<lambda>e. df_values (snd e)) (snd g))\<rparr>,
                table_number = n,
                row_count = length (concat (map (\<lambda>e. df_values (snd e)) (snd g))),
                merged_from = map fst (snd g)\<rparr>"
proof -
  have ne: "map snd (snd g) \<noteq> []" using group_ok_nonempty [OF g] by simp
  have "df_columns (snd e) = fst g" if "e \<in> set (snd g)" for e
    using group_ok_member [OF g that] by (simp add: member_ok_def)
  then have same: "\<forall>d \<in> set (map snd (snd g)). df_columns d = fst g" by auto
  have "pd_concat (map snd (snd g)) =
          Inr \<lparr>df_columns = fst g, df_values = concat (map df_values (map snd (snd g)))\<rparr>"
    using ne same by (rule pd_concat_same_columns)
  then show ?thesis by (simp add: merged_table_def comp_def)
qed

lemma merged_tables_ok:
  assumes "list_all (group_ok dfs) gs"
  shows "\<exists>its. merged_tables n gs = Inr its
           \<and> map table_number its = [n..<n + length gs]
           \<and> map columns its = map fst gs
           \<and> map merged_from its = map (\<lambda>g. map fst (snd g)) gs
           \<and> map row_count its = map (\<lambda>g. sum_list (map (\<lambda>e. length (df_values (snd e))) (snd g))) gs"
  using assms
proof (induction gs arbitrary: n)
  case Nil
  then show ?case by simp
next
  case (Cons g gs)
  then have g: "group_ok dfs g" and gs: "list_all (group_ok dfs) gs" by simp_all
  obtain its where its: "merged_tables (Suc n) gs = Inr its"
    "map table_number its = [Suc n..<Suc n + length gs]"
    "map columns its = map fst gs"
    "map merged_from its = map (\<lambda>g. map fst (snd g)) gs"
    "map row_count its = map (\<lambda>g. sum_list (map (\<lambda>e. length (df_values (snd e))) (snd g))) gs"
    using Cons.IH [OF gs, of "Suc n"] by blast
  let ?t = "\<lparr>columns = fst g, data = to_dict_records
                   \<lparr>df_columns = fst g, df_values = concat (map (\<lambda>e. df_values (snd e)) (snd g))\<rparr>,
                table_number = n,
                row_count = length (concat (map (\<lambda>e. df_values (snd e)) (snd g))),
                merged_from = map fst (snd g)\<rparr>"
  have t: "merged_table n g = Inr ?t" by (rule merged_table_ok [OF g])
  have m: "merged_tables n (g # gs) = Inr (?t # its)" by (simp add: t its(1))
  have u: "[n..<n + length (g # gs)] = n # [Suc n..<Suc n + length gs]"
    by (simp add: upt_rec)
  have "map table_number (?t # its) = [n..<n + length (g # gs)]
           \<and> map columns (?t # its) = map fst (g # gs)
           \<and> map merged_from (?t # its) = map (\<lambda>g. map fst (snd g)) (g # gs)
           \<and> map row_count (?t # its)
               = map (\<lambda>g. sum_list (map (\<lambda>e. length (df_values (snd e))) (snd g))) (g # gs)"
    unfolding u using its(2-5) by (simp add: length_concat comp_def)
  then show ?case using m by blast
qed

lemma grouping_result:
  "\<exists>its. merged_tables 1 (column_groups dfs) = Inr its
     \<and> map table_number its = [1..<Suc (length its)]
     \<and> map columns its = map fst (column_groups dfs)
     \<and> list_all (\<lambda>t. merged_from t \<noteq> [] \<and> sorted_wrt (<) (merged_from t)) its
     \<and> sorted_wrt (<) (map (\<lambda>t. hd (merged_from t)) its)"
proof -
  let ?gs = "column_groups dfs"
  note inv = group_invariantD [OF group_invariant_column_groups [of dfs]]
  have G: "list_all (group_ok dfs) ?gs" using inv(2) by (simp add: list_all_iff)
  obtain its where its: "merged_tables 1 ?gs = Inr its"
    "map table_number its = [1..<1 + length ?gs]"
    "map columns its = map fst ?gs"
    "map merged_from its = map (\<lambda>g. map fst (snd g)) ?gs"
    using merged_tables_ok [OF G, of 1] by blast
  have len: "length its = length ?gs" using its(3) by (metis length_map)
  have n: "map table_number its = [1..<Suc (length its)]" using its(2) len by simp
  have "map fst (snd g) \<noteq> [] \<and> sorted_wrt (<) (map fst (snd g))" if "g \<in> set ?gs" for g
    using group_ok_nonempty [OF inv(2) [OF that]] group_ok_sorted [OF inv(2) [OF that]] by simp
  then have "\<forall>ms \<in> set (map merged_from its). ms \<noteq> [] \<and> sorted_wrt (<) ms"
    unfolding its(4) by auto
  then have m: "list_all (\<lambda>t. merged_from t \<noteq> [] \<and> sorted_wrt (<) (merged_from t)) its"
    by (simp add: list_all_iff)
  have "map (\<lambda>t. hd (merged_from t)) its = map hd (map merged_from its)" by simp
  also have "\<dots> = map (\<lambda>g. hd (map fst (snd g))) ?gs" unfolding its(4) by simp
  also have "\<dots> = map (\<lambda>g. fst (hd (snd g))) ?gs"
  proof (rule map_cong [OF refl])
    fix g assume "g \<in> set ?gs"
    then have "snd g \<noteq> []" using inv(2) group_ok_nonempty by blast
    then show "hd (map fst (snd g)) = fst (hd (snd g))" by (rule hd_map)
  qed
  finally have s: "sorted_wrt (<) (map (\<lambda>t. hd (merged_from t)) its)" using inv(4) by simp
  from its(1) n its(3) m s show ?thesis by blast
qed

text \<open>
  C8.  The grouping is a function of the sequence of processed frames alone (the dict is
  created in the call and Python dicts keep insertion order): on equal sequences it gives
  equal groups and equal merged tables.  It never raises; the merged tables are numbered
  1, 2, ... in the order of the groups; the groups stand in the order in which their first
  entries were met; and inside a group the entries stand in the order of their numbers.
\<close>
theorem grouping_deterministic:
  assumes "dfs' = dfs"
  shows "column_groups dfs' = column_groups dfs
         \<and> merged_tables 1 (column_groups dfs') = merged_tables 1 (column_groups dfs)
         \<and> (\<exists>its. merged_tables 1 (column_groups dfs) = Inr its
               \<and> map table_number its = [1..<Suc (length its)]
               \<and> map columns its = map fst (column_groups dfs)
               \<and> list_all (\<lambda>t. merged_from t \<noteq> [] \<and> sorted_wrt (<) (merged_from t)) its
               \<and> sorted_wrt (<) (map (\<lambda>t. hd (merged_from t)) its))"
  using assms grouping_result [of dfs] by simp

theorem grouping_deterministic_witness:
  "map_sum id (map table_number) (merged_tables 1 (column_groups value_frames)) = Inr [1, 2, 3]
   \<and> map_sum id (map merged_from) (merged_tables 1 (column_groups value_frames))
       = Inr [[1, 2], [3], [4]]
   \<and> column_groups value_frames = column_groups value_frames
   \<and> (\<exists>its. merged_tables 1 (column_groups value_frames) = Inr its
         \<and> map table_number its = [1..<Suc (length its)]
         \<and> map columns its = map fst (column_groups value_frames)
         \<and> list_all (\<lambda>t. merged_from t \<noteq> [] \<and> sorted_wrt (<) (merged_from t)) its
         \<and> sorted_wrt (<) (map (\<lambda>t. hd (merged_from t)) its))"
proof -
  have a: "map_sum id (map table_number) (merged_tables 1 (column_groups value_frames)) = Inr [1, 2, 3]"
    by code_simp
  have b: "map_sum id (map merged_from) (merged_tables 1 (column_groups value_frames))
       = Inr [[1, 2], [3], [4]]"
    by code_simp
  from grouping_deterministic [OF refl, of value_frames] a b show ?thesis by blast
qed

subsection \<open>Generic column names\<close>

lemma digit_char_inj: "a < 10 \<Longrightarrow> b < 10 \<Longrightarrow> digit_char a = digit_char b \<Longrightarrow> a = b"
  by (simp add: digit_char_def nth_eq_iff_index_eq)

lemma str_nat_nonempty: "str_nat n \<noteq> []"
  by (subst str_nat.simps) simp

lemma str_nat_inj: "str_nat m = str_nat n \<Longrightarrow> m = n"
proof (induction m arbitrary: n rule: str_nat.induct)
  case (1 m)
  show ?case
  proof (cases "m < 10")
    case m: True
    show ?thesis
    proof (cases "n < 10")
      case True
      then show ?thesis using m "1.prems" digit_char_inj [of m n]
        by (simp add: str_nat.simps [of m] str_nat.simps [of n])
    next
      case False
      then have "str_nat n = str_nat (n div 10) @ [digit_char (n mod 10)]"
        by (simp add: str_nat.simps [of n])
      moreover have "str_nat m = [digit_char m]" using m by (simp add: str_nat.simps [of m])
      ultimately show ?thesis using "1.prems" str_nat_nonempty [of "n div 10"] by simp
    qed
  next
    case m: False
    then have sm: "str_nat m = str_nat (m div 10) @ [digit_char (m mod 10)]"
      by (simp add: str_nat.simps [of m])
    show ?thesis
    proof (cases "n < 10")
      case True
      then have "str_nat n = [digit_char n]" by (simp add: str_nat.simps [of n])
      then show ?thesis using "1.prems" sm str_nat_nonempty [of "m div 10"] by simp
    next
      case False
      then have sn: "str_nat n = str_nat (n div 10) @ [digit_char (n mod 10)]"
        by (simp add: str_nat.simps [of n])
      have e: "str_nat (m div 10) = str_nat (n div 10)" "digit_char (m mod 10) = digit_char (n mod 10)"
        using "1.prems" sm sn by simp_all
      have d: "m div 10 = n div 10" using "1.IH" [OF m e(1)] .
      have r: "m mod 10 = n mod 10" using digit_char_inj [OF _ _ e(2)] by simp
      show ?thesis using d r by (metis div_mult_mod_eq)
    qed
  qed
qed

lemma distinct_generic_headers: "distinct (generic_headers n)"
  by (auto simp: generic_headers_def distinct_map inj_on_def dest: str_nat_inj)

lemma pd_concat_distinct:
  assumes ne: "dfs \<noteq> []" and d: "\<forall>d \<in> set dfs. distinct (df_columns d)"
  shows "\<exists>cat. pd_concat dfs = Inr cat"
proof -
  let ?ne = "filter (\<lambda>d. shape_sum d > 0) dfs"
  define objs where "objs = (if ?ne \<noteq> [] then ?ne else dfs)"
  have sub: "set objs \<subseteq> set dfs" by (auto simp: objs_def)
  have "objs \<noteq> []" using ne by (simp add: objs_def)
  then obtain d0 ds where objs: "objs = d0 # ds" by (cases objs) auto
  have nodup: "\<not> list_ex (\<lambda>d. \<not> distinct (df_columns d)) (d0 # ds)"
    using d sub unfolding objs [symmetric] list_ex_iff by auto
  show ?thesis
    unfolding pd_concat_objs objs_def [symmetric] objs using nodup by simp
qed

lemma run_ok:
  assumes uc: "unicode_correction tables_json = Inr (first_table # later)"
    and vh: "valid_headers (columns first_table)"
    and d: "\<forall>d \<in> set (all_processed_dfs first_table later). distinct (df_columns d)"
  shows "\<exists>out. process_tables_sequentially tables_json = Inr out"
proof -
  let ?dfs = "all_processed_dfs first_table later"
  have "?dfs \<noteq> []" by (simp add: all_processed_dfs_def)
  then obtain cat where cat: "pd_concat ?dfs = Inr cat"
    using pd_concat_distinct [OF _ d] by blast
  obtain its where its: "merged_tables 1 (column_groups ?dfs) = Inr its"
    using grouping_result [of ?dfs] by blast
  show ?thesis
    using uc vh cat its by (simp add: process_tables_sequentially_def process_tables_def)
qed

lemma fillna_cell_fixed: "r \<in> set (df_values (fillna d)) \<Longrightarrow> j < length r \<Longrightarrow> fillna_cell (r ! j) = r ! j"
  by (auto simp: values_fillna fillna_cell_idem)

lemma ledger_block:
  assumes cat: "pd_concat dfs = Inr cat"
    and wf: "\<forall>d \<in> set dfs. well_formed d"
    and g: "g \<in> set dfs"
  shows "\<exists>before kept after.
           df_values (fillna cat) = before @ kept @ after
           \<and> length kept = length (df_values g)
           \<and> (\<forall>i < length kept. \<forall>j < length (df_columns g).
                 \<exists>k < length (df_columns cat). df_columns cat ! k = df_columns g ! j
                    \<and> kept ! i ! k = fillna_cell (df_values g ! i ! j))"
proof -
  let ?L = "df_columns cat"
  let ?lay = "\<lambda>d r. if df_columns d = ?L then map fillna_cell r
                     else map fillna_cell (reindex_row (df_columns d) ?L r)"
  obtain xs ys where split: "dfs = xs @ g # ys" using g by (auto dest: split_list)
  have all: "df_values (fillna cat) = concat (map (\<lambda>d. map (?lay d) (df_values d)) dfs)"
    by (rule ledger_layout(1) [OF cat wf])
  have cells: "\<forall>d \<in> set dfs. \<forall>r \<in> set (df_values d).
           length (?lay d r) = length ?L
           \<and> (\<forall>j < length (df_columns d). \<exists>k < length ?L. ?L ! k = df_columns d ! j
                  \<and> ?lay d r ! k = fillna_cell (r ! j))
           \<and> (\<forall>k < length ?L. ?L ! k \<notin> set (df_columns d) \<longrightarrow> ?lay d r ! k = Str '''')"
    by (rule ledger_layout(2) [OF cat wf])
  let ?before = "concat (map (\<lambda>d. map (?lay d) (df_values d)) xs)"
  let ?kept = "map (?lay g) (df_values g)"
  let ?after = "concat (map (\<lambda>d. map (?lay d) (df_values d)) ys)"
  have 1: "df_values (fillna cat) = ?before @ ?kept @ ?after"
    unfolding all split by simp
  have 2: "length ?kept = length (df_values g)" by simp
  have 3: "\<exists>k < length ?L. ?L ! k = df_columns g ! j \<and> ?kept ! i ! k = fillna_cell (df_values g ! i ! j)"
    if i: "i < length ?kept" and j: "j < length (df_columns g)" for i j
  proof -
    have r: "df_values g ! i \<in> set (df_values g)" using i by simp
    have "\<forall>j < length (df_columns g). \<exists>k < length ?L. ?L ! k = df_columns g ! j
                  \<and> ?lay g (df_values g ! i) ! k = fillna_cell (df_values g ! i ! j)"
      using cells g r by blast
    then obtain k where "k < length ?L" "?L ! k = df_columns g ! j"
      "?lay g (df_values g ! i) ! k = fillna_cell (df_values g ! i ! j)"
      using j by blast
    moreover have "?kept ! i = ?lay g (df_values g ! i)" using i by simp
    ultimately have "k < length ?L \<and> ?L ! k = df_columns g ! j
        \<and> ?kept ! i ! k = fillna_cell (df_values g ! i ! j)" by simp
    then show ?thesis by (rule exI)
  qed
  have 4: "\<forall>i < length ?kept. \<forall>j < length (df_columns g).
             \<exists>k < length ?L. ?L ! k = df_columns g ! j
                \<and> ?kept ! i ! k = fillna_cell (df_values g ! i ! j)"
    using 3 by (intro allI impI)
  have "df_values (fillna cat) = ?before @ ?kept @ ?after
           \<and> length ?kept = length (df_values g)
           \<and> (\<forall>i < length ?kept. \<forall>j < length (df_columns g).
                 \<exists>k < length ?L. ?L ! k = df_columns g ! j
                    \<and> ?kept ! i ! k = fillna_cell (df_values g ! i ! j))"
    using 1 2 4 by (intro conjI)
  then show ?thesis by (intro exI)
qed

text \<open>
  C7.  A table after the first whose frame (its rows, absent cells filled) has columns, all
  of them numeric, a first row without a header keyword, and a number of columns other than
  the number of master headers, is processed to the frame with the columns \<open>Column_1\<close> to
  \<open>Column_N\<close> and all of its rows, and this frame is among the processed frames.  The
  generic names are pairwise different, so this frame is never the one on which the
  concatenation fails: the run returns a ledger whenever no other processed frame has a
  repeated label.  In every ledger the run returns, the rows of the table stand together
  and in their order, one ledger row for each, with every cell of the row under its generic
  name.
\<close>
theorem generic_names_keep_rows:
  assumes uc: "unicode_correction tables_json = Inr (first_table # later)"
    and vh: "valid_headers (columns first_table)"
    and t: "t \<in> set later"
    and df: "df = fillna (DataFrame (data t))"
    and cols: "df_columns df \<noteq> []"
    and num: "list_all py_isdigit (df_columns df)"
    and rows: "df_values df = first_row # rest"
    and nokw: "\<not> list_ex (\<lambda>keyword. py_in keyword (first_row_text first_row)) header_keywords"
    and mismatch: "length (df_columns df) \<noteq> length (columns first_table)"
  defines "names \<equiv> map (\<lambda>i. ''Column_'' @ str_nat (i + 1)) [0..<length (df_columns df)]"
  defines "dfs \<equiv> all_processed_dfs first_table later"
  shows "process_table (columns first_table) t = Some \<lparr>df_columns = names, df_values = df_values df\<rparr>
         \<and> \<lparr>df_columns = names, df_values = df_values df\<rparr> \<in> set dfs
         \<and> length (df_values df) = length (data t)
         \<and> distinct names
         \<and> ((\<forall>d \<in> set dfs. d \<noteq> \<lparr>df_columns = names, df_values = df_values df\<rparr> \<longrightarrow> distinct (df_columns d))
              \<longrightarrow> (\<exists>out. process_tables_sequentially tables_json = Inr out))
         \<and> (\<forall>out. process_tables_sequentially tables_json = Inr out \<longrightarrow>
              (\<exists>before kept after.
                  df_values (final_df out) = before @ kept @ after
                  \<and> length kept = length (data t)
                  \<and> (\<forall>i < length kept. \<forall>j < length names.
                        \<exists>k < length (df_columns (final_df out)).
                          df_columns (final_df out) ! k = names ! j
                          \<and> kept ! i ! k = df_values df ! i ! j)))"
proof -
  let ?g = "\<lparr>df_columns = names, df_values = df_values df\<rparr>"
  have names: "names = generic_headers (length (df_columns df))"
    by (simp add: names_def generic_headers_def)
  have looks: "\<not> first_row_looks_like_headers df"
    using rows nokw by (simp add: first_row_looks_like_headers_def)
  have r: "resolve_headers (columns first_table) df = ?g"
    using num mismatch looks by (simp add: resolve_headers_def names)
  have m: "merge_split_columns ?g = ?g"
    by (rule merge_split_no_empty_label) (simp add: names generic_headers_nonempty)
  have len: "length (df_values df) = length (data t)"
    using df by (simp add: values_fillna length_DataFrame)
  then have ne_rows: "data t \<noteq> []" using rows by auto
  have "\<not> df_empty df" using cols rows by (simp add: df_empty_def)
  then have ne: "\<not> df_empty (DataFrame (data t))"
    using df by (simp add: empty_fillna)
  have p: "process_table (columns first_table) t = Some ?g"
    using process_table_Some [OF ne_rows ne] r m df by simp
  have mem: "?g \<in> set dfs"
    using in_map_filter [where f = "process_table (columns first_table)", OF t p]
    by (simp add: all_processed_dfs_def dfs_def)
  have dist: "distinct names" by (simp add: names distinct_generic_headers)
  have ok: "\<exists>out. process_tables_sequentially tables_json = Inr out"
    if others: "\<forall>d \<in> set dfs. d \<noteq> ?g \<longrightarrow> distinct (df_columns d)"
  proof -
    have "distinct (df_columns d)" if "d \<in> set dfs" for d
      using others that dist by (cases "d = ?g") auto
    then have "\<forall>d \<in> set (all_processed_dfs first_table later). distinct (df_columns d)"
      by (simp add: dfs_def)
    then show ?thesis by (rule run_ok [OF uc vh])
  qed
  have kept: "\<exists>before kept after.
                  df_values (final_df out) = before @ kept @ after
                  \<and> length kept = length (data t)
                  \<and> (\<forall>i < length kept. \<forall>j < length names.
                        \<exists>k < length (df_columns (final_df out)).
                          df_columns (final_df out) ! k = names ! j
                          \<and> kept ! i ! k = df_values df ! i ! j)"
    if run: "process_tables_sequentially tables_json = Inr out" for out
  proof -
    obtain cat where cat: "pd_concat dfs = Inr cat" and fin: "final_df out = fillna cat"
      using run_returns [OF uc vh run] by (auto simp: dfs_def)
    have wf: "\<forall>d \<in> set dfs. well_formed d"
      using wf_all_processed by (auto simp: dfs_def)
    obtain before kept after where b:
      "df_values (fillna cat) = before @ kept @ after"
      "length kept = length (df_values ?g)"
      "\<forall>i < length kept. \<forall>j < length (df_columns ?g).
          \<exists>k < length (df_columns cat). df_columns cat ! k = df_columns ?g ! j
             \<and> kept ! i ! k = fillna_cell (df_values ?g ! i ! j)"
      using ledger_block [OF cat wf mem] by blast
    have wfg: "well_formed ?g" using wf mem by blast
    have fixed: "fillna_cell (df_values df ! i ! j) = df_values df ! i ! j"
      if "i < length kept" "j < length names" for i j
    proof -
      have i: "i < length (df_values df)" using that(1) b(2) by simp
      then have r: "df_values df ! i \<in> set (df_values (fillna (DataFrame (data t))))"
        using df by simp
      have "length (df_values df ! i) = length names"
        using wfg i by (simp add: well_formed_def list_all_iff)
      then show ?thesis using fillna_cell_fixed [OF r] that(2) by simp
    qed
    have cf: "df_columns (final_df out) = df_columns cat" by (simp add: fin columns_fillna)
    have c: "\<exists>k < length (df_columns (final_df out)).
                   df_columns (final_df out) ! k = names ! j
                   \<and> kept ! i ! k = df_values df ! i ! j"
      if i: "i < length kept" and j: "j < length names" for i j
    proof -
      have "\<exists>k < length (df_columns cat). df_columns cat ! k = df_columns ?g ! j
             \<and> kept ! i ! k = fillna_cell (df_values ?g ! i ! j)"
        using b(3) i j by simp
      then obtain k where k: "k < length (df_columns cat)" "df_columns cat ! k = names ! j"
        "kept ! i ! k = fillna_cell (df_values df ! i ! j)" by auto
      have "kept ! i ! k = df_values df ! i ! j" using k(3) fixed [OF i j] by simp
      then have "k < length (df_columns (final_df out)) \<and> df_columns (final_df out) ! k = names ! j
          \<and> kept ! i ! k = df_values df ! i ! j" using k(1,2) by (simp add: cf)
      then show ?thesis by (rule exI)
    qed
    have c': "\<forall>i < length kept. \<forall>j < length names.
                \<exists>k < length (df_columns (final_df out)).
                   df_columns (final_df out) ! k = names ! j
                   \<and> kept ! i ! k = df_values df ! i ! j"
      using c by (intro allI impI)
    have a: "df_values (final_df out) = before @ kept @ after" using b(1) by (simp add: fin)
    have l: "length kept = length (data t)" using b(2) len by simp
    have "df_values (final_df out) = before @ kept @ after
                  \<and> length kept = length (data t)
                  \<and> (\<forall>i < length kept. \<forall>j < length names.
                        \<exists>k < length (df_columns (final_df out)).
                          df_columns (final_df out) ! k = names ! j
                          \<and> kept ! i ! k = df_values df ! i ! j)"
      using a l c' by (intro conjI)
    then show ?thesis by (intro exI)
  qed
  have 5: "(\<forall>d \<in> set dfs. d \<noteq> ?g \<longrightarrow> distinct (df_columns d))
              \<longrightarrow> (\<exists>out. process_tables_sequentially tables_json = Inr out)"
    using ok by (intro impI)
  have 6: "\<forall>out. process_tables_sequentially tables_json = Inr out \<longrightarrow>
              (\<exists>before kept after.
                  df_values (final_df out) = before @ kept @ after
                  \<and> length kept = length (data t)
                  \<and> (\<forall>i < length kept. \<forall>j < length names.
                        \<exists>k < length (df_columns (final_df out)).
                          df_columns (final_df out) ! k = names ! j
                          \<and> kept ! i ! k = df_values df ! i ! j))"
    using kept by (intro allI impI)
  from p mem len dist 5 6 show ?thesis by (intro conjI)
qed

theorem generic_names_keep_rows_witness:
  "unicode_correction [ledger_page, unlabelled_page] = Inr (ledger_page # [unlabelled_page])
   \<and> valid_headers (columns ledger_page)
   \<and> df_columns (fillna (DataFrame (data unlabelled_page))) = [''0'', ''1'', ''2'']
   \<and> list_all py_isdigit (df_columns (fillna (DataFrame (data unlabelled_page))))
   \<and> \<not> list_ex (\<lambda>keyword. py_in keyword
             (first_row_text [Str ''2024-01-02'', Str ''Coffee'', Str ''4.50''])) header_keywords
   \<and> length (df_columns (fillna (DataFrame (data unlabelled_page)))) \<noteq> length (columns ledger_page)
   \<and> process_table (columns ledger_page) unlabelled_page =
       Some \<lparr>df_columns = [''Column_1'', ''Column_2'', ''Column_3''],
             df_values = [[Str ''2024-01-02'', Str ''Coffee'', Str ''4.50''],
                          [Str ''2024-01-03'', Str ''Books'', Str '''']]\<rparr>
   \<and> list_all (\<lambda>d. distinct (df_columns d)) (all_processed_dfs ledger_page [unlabelled_page])
   \<and> (\<exists>out. process_tables_sequentially [ledger_page, unlabelled_page] = Inr out)
   \<and> map_sum id final_df (process_tables_sequentially [ledger_page, unlabelled_page]) =
       Inr \<lparr>df_columns = [''Date'', ''Description'', ''Amount'', ''Balance'',
                          ''Column_1'', ''Column_2'', ''Column_3''],
            df_values = [[Str ''2024-01-01'', Str ''Opening'', Str ''0'', Str ''100'',
                          Str '''', Str '''', Str ''''],
                         [Str '''', Str '''', Str '''', Str '''',
                          Str ''2024-01-02'', Str ''Coffee'', Str ''4.50''],
                         [Str '''', Str '''', Str '''', Str '''',
                          Str ''2024-01-03'', Str ''Books'', Str '''']]\<rparr>"
proof -
  let ?df = "fillna (DataFrame (data unlabelled_page))"
  have u: "unicode_correction [ledger_page, unlabelled_page] = Inr (ledger_page # [unlabelled_page])"
    by code_simp
  have vh: "valid_headers (columns ledger_page)" by code_simp
  have h1: "unlabelled_page \<in> set [unlabelled_page]" by simp
  have h2: "df_columns ?df = [''0'', ''1'', ''2'']" by code_simp
  have h4: "df_columns ?df \<noteq> []" by (simp add: h2)
  have h5: "list_all py_isdigit (df_columns ?df)" by code_simp
  have h6: "\<not> list_ex (\<lambda>keyword. py_in keyword
             (first_row_text [Str ''2024-01-02'', Str ''Coffee'', Str ''4.50''])) header_keywords"
    by code_simp
  have h7: "length (df_columns ?df) \<noteq> length (columns ledger_page)" by code_simp
  have w: "df_values ?df = [Str ''2024-01-02'', Str ''Coffee'', Str ''4.50'']
                            # [[Str ''2024-01-03'', Str ''Books'', Str '''']]" by code_simp
  have c: "map (\<lambda>i. ''Column_'' @ str_nat (i + 1)) [0..<length (df_columns ?df)] =
             [''Column_1'', ''Column_2'', ''Column_3'']" by code_simp
  have v: "df_values ?df = [[Str ''2024-01-02'', Str ''Coffee'', Str ''4.50''],
                            [Str ''2024-01-03'', Str ''Books'', Str '''']]" by code_simp
  have d: "list_all (\<lambda>d. distinct (df_columns d)) (all_processed_dfs ledger_page [unlabelled_page])"
    by code_simp
  then have d': "\<forall>d \<in> set (all_processed_dfs ledger_page [unlabelled_page]). distinct (df_columns d)"
    by (simp add: list_all_iff)
  have run: "map_sum id final_df (process_tables_sequentially [ledger_page, unlabelled_page]) =
       Inr \<lparr>df_columns = [''Date'', ''Description'', ''Amount'', ''Balance'',
                          ''Column_1'', ''Column_2'', ''Column_3''],
            df_values = [[Str ''2024-01-01'', Str ''Opening'', Str ''0'', Str ''100'',
                          Str '''', Str '''', Str ''''],
                         [Str '''', Str '''', Str '''', Str '''',
                          Str ''2024-01-02'', Str ''Coffee'', Str ''4.50''],
                         [Str '''', Str '''', Str '''', Str '''',
                          Str ''2024-01-03'', Str ''Books'', Str '''']]\<rparr>"
    by code_simp
  note th = generic_names_keep_rows [OF u vh h1 refl h4 h5 w h6 h7]
  have p: "process_table (columns ledger_page) unlabelled_page =
       Some \<lparr>df_columns = [''Column_1'', ''Column_2'', ''Column_3''],
             df_values = [[Str ''2024-01-02'', Str ''Coffee'', Str ''4.50''],
                          [Str ''2024-01-03'', Str ''Books'', Str '''']]\<rparr>"
    using conjunct1 [OF th] unfolding c v .
  have r: "\<exists>out. process_tables_sequentially [ledger_page, unlabelled_page] = Inr out"
    using conjunct1 [OF conjunct2 [OF conjunct2 [OF conjunct2 [OF conjunct2 [OF th]]]]] d' by blast
  from u vh h2 h5 h6 h7 p d r run show ?thesis by (intro conjI)
qed

subsection \<open>The unicode correction\<close>

lemma bad_uni_occurrence: "\<not> four_hex_digits post \<Longrightarrow> bad_uni (pre @ ''/uni'' @ post)"
  by (induction pre) simp_all

lemma json_escape_Cons: "json_escape (c # s) = escape_char c @ json_escape s"
  by (simp add: json_escape_def)

lemma escape_char_shape: "escape_char c = [c] \<or> (\<exists>r. escape_char c = backslash # r)"
  by (simp add: escape_char_def)

lemma hex_digit_is_hex: "d < 16 \<Longrightarrow> is_hex (hex_digit d)"
proof -
  assume "d < 16"
  then have "''0123456789abcdef'' ! d \<in> set ''0123456789abcdef''"
    by (intro nth_mem) simp
  moreover have "set ''0123456789abcdef'' \<subseteq> set ''0123456789abcdefABCDEF''"
    by (rule set_mono_prefix) simp
  ultimately show ?thesis unfolding hex_digit_def is_hex_def by blast
qed

lemma slash_not_hex: "\<not> is_hex (CHR ''/'')"
  by (simp add: is_hex_def)

lemma backslash_not_hex: "\<not> is_hex backslash"
  by (simp add: is_hex_def backslash_def)

lemma hex_digit_not_slash: "d < 16 \<Longrightarrow> hex_digit d \<noteq> CHR ''/''"
  using hex_digit_is_hex [of d] slash_not_hex by auto

lemma div16_less: "(of_char c :: nat) div 16 < 16"
proof -
  have "(of_char c :: nat) < 16 * 16" using nat_of_char_less_256 [of c] by simp
  then show ?thesis by (rule less_mult_imp_div_less)
qed

lemma escape_char_no_slash: "c \<noteq> CHR ''/'' \<Longrightarrow> CHR ''/'' \<notin> set (escape_char c)"
proof -
  assume c: "c \<noteq> CHR ''/''"
  have a: "hex_digit ((of_char c :: nat) div 16) \<noteq> CHR ''/''"
    by (rule hex_digit_not_slash [OF div16_less])
  have b: "hex_digit ((of_char c :: nat) mod 16) \<noteq> CHR ''/''"
    by (rule hex_digit_not_slash) simp
  show ?thesis using a b c by (simp add: escape_char_def backslash_def quote_def)
qed

lemma replace_uni_other: "c \<noteq> CHR ''/'' \<Longrightarrow> replace_uni (c # cs) = c # replace_uni cs"
  by simp

lemma replace_uni_no_slash: "CHR ''/'' \<notin> set xs \<Longrightarrow> replace_uni (xs @ ys) = xs @ replace_uni ys"
proof (induction xs)
  case Nil
  then show ?case by simp
next
  case (Cons x xs)
  then have x: "x \<noteq> CHR ''/''" and xs: "CHR ''/'' \<notin> set xs" by auto
  have "replace_uni ((x # xs) @ ys) = x # replace_uni (xs @ ys)"
    using replace_uni_other [OF x, of "xs @ ys"] by simp
  then show ?case using Cons.IH [OF xs] by simp
qed

lemma replace_uni_match: "replace_uni (''/uni'' @ xs) = backslash # CHR ''u'' # replace_uni xs"
  by simp

lemma unescape_plain:
  "c \<noteq> backslash \<Longrightarrow> isl (json_unescape rest) \<Longrightarrow> isl (json_unescape (c # rest))"
  by (cases "json_unescape rest") simp_all

lemma unescape_simple:
  "e \<noteq> CHR ''u'' \<Longrightarrow> isl (json_unescape rest) \<Longrightarrow> isl (json_unescape (backslash # e # rest))"
  by (cases "json_unescape rest") (simp_all split: option.splits)

lemma unescape_hex:
  "isl (json_unescape rest) \<Longrightarrow> isl (json_unescape (backslash # CHR ''u'' # a # b # c # d # rest))"
  by (cases "json_unescape rest") simp_all

lemma unescape_escape_char:
  assumes "isl (json_unescape rest)"
  shows "isl (json_unescape (escape_char c @ rest))"
proof -
  have "(escape_char c = [c] \<and> c \<noteq> backslash)
        \<or> (\<exists>e. escape_char c = [backslash, e] \<and> e \<noteq> CHR ''u'')
        \<or> (\<exists>a b. escape_char c = [backslash, CHR ''u'', CHR ''0'', CHR ''0'', a, b])"
    by (simp add: escape_char_def backslash_def quote_def)
  then consider (plain) "escape_char c = [c]" "c \<noteq> backslash"
    | (simple) e where "escape_char c = [backslash, e]" "e \<noteq> CHR ''u''"
    | (hex) a b where "escape_char c = [backslash, CHR ''u'', CHR ''0'', CHR ''0'', a, b]"
    by blast
  then show ?thesis
  proof cases
    case plain
    then show ?thesis using assms by (simp del: json_unescape.simps add: unescape_plain)
  next
    case simple
    then show ?thesis using assms by (simp del: json_unescape.simps add: unescape_simple)
  next
    case hex
    then show ?thesis using assms by (simp del: json_unescape.simps add: unescape_hex)
  qed
qed

lemma unescape_bad_escape:
  "\<not> four_hex_digits rest \<Longrightarrow> json_unescape (backslash # CHR ''u'' # rest) = Inl JSONDecodeError"
  by (auto simp: four_hex_digits_def)

lemma unescape_good_escape:
  "list_all is_hex hs \<Longrightarrow> length hs = 4 \<Longrightarrow> isl (json_unescape rest)
   \<Longrightarrow> isl (json_unescape (backslash # CHR ''u'' # hs @ rest))"
  by (cases "json_unescape rest") simp_all

lemma is_hex_plain: "is_hex c \<Longrightarrow> escape_char c = [c] \<and> c \<noteq> CHR ''/'' \<and> c \<noteq> backslash"
  by (auto simp: is_hex_def escape_char_def backslash_def quote_def)

lemma json_escape_first:
  assumes "json_escape s = x # rest" and "x \<noteq> backslash"
  shows "\<exists>s'. s = x # s' \<and> rest = json_escape s'"
proof (cases s)
  case Nil
  then show ?thesis using assms by (simp add: json_escape_def)
next
  case (Cons c s')
  have "escape_char c = [c]"
    using escape_char_shape [of c] assms by (auto simp: Cons json_escape_Cons)
  then show ?thesis using assms by (simp add: Cons json_escape_Cons)
qed

lemma replace_uni_first:
  assumes "replace_uni xs = x # rest" and "x \<noteq> backslash"
  shows "\<exists>xs'. xs = x # xs' \<and> rest = replace_uni xs'"
proof (cases xs)
  case Nil
  then show ?thesis using assms by simp
next
  case (Cons c cs)
  show ?thesis
  proof (cases "prefix ''/uni'' (c # cs)")
    case True
    then have "replace_uni xs = backslash # CHR ''u'' # replace_uni (drop 3 cs)"
      by (simp only: Cons replace_uni.simps if_True append.simps)
    then show ?thesis using assms by simp
  next
    case False
    then have "replace_uni xs = c # replace_uni cs"
      by (simp only: Cons replace_uni.simps if_False)
    then show ?thesis using assms by (simp add: Cons)
  qed
qed

lemma hex_prefix:
  "n \<le> length (replace_uni (json_escape t)) \<Longrightarrow> list_all is_hex (take n (replace_uni (json_escape t)))
   \<Longrightarrow> \<exists>hs t'. t = hs @ t' \<and> length hs = n \<and> list_all is_hex hs
         \<and> replace_uni (json_escape t) = hs @ replace_uni (json_escape t')"
proof (induction n arbitrary: t)
  case 0
  then show ?case by simp
next
  case (Suc n)
  then obtain x rest where r: "replace_uni (json_escape t) = x # rest"
    by (cases "replace_uni (json_escape t)") auto
  have hx: "is_hex x" and n: "n \<le> length rest" and h: "list_all is_hex (take n rest)"
    using Suc.prems by (simp_all add: r)
  have xb: "x \<noteq> backslash" using hx backslash_not_hex by auto
  obtain e where e: "json_escape t = x # e" "rest = replace_uni e"
    using replace_uni_first [OF r xb] by blast
  obtain t1 where t1: "t = x # t1" "e = json_escape t1"
    using json_escape_first [OF e(1) xb] by blast
  obtain hs t' where ih: "t1 = hs @ t'" "length hs = n" "list_all is_hex hs"
    "replace_uni (json_escape t1) = hs @ replace_uni (json_escape t')"
    using Suc.IH [of t1] n h by (auto simp: e(2) t1(2))
  have "t = (x # hs) @ t' \<and> length (x # hs) = Suc n \<and> list_all is_hex (x # hs)
         \<and> replace_uni (json_escape t) = (x # hs) @ replace_uni (json_escape t')"
    using ih hx r e t1 by simp
  then show ?case by blast
qed

lemma bad_uni_other: "c \<noteq> CHR ''/'' \<Longrightarrow> bad_uni (c # cs) = bad_uni cs"
  by simp

lemma bad_uni_hex: "list_all is_hex hs \<Longrightarrow> bad_uni (hs @ t) = bad_uni t"
proof (induction hs)
  case Nil
  then show ?case by simp
next
  case (Cons h hs)
  then have "h \<noteq> CHR ''/''" using slash_not_hex by auto
  then show ?case using Cons by (simp del: bad_uni.simps add: bad_uni_other)
qed

lemma json_escape_uni: "json_escape (''/uni'' @ t) = ''/uni'' @ json_escape t"
  by (simp add: json_escape_def escape_char_def backslash_def quote_def)

lemma json_escape_prefix_uni:
  assumes "prefix ''uni'' (json_escape cs)"
  shows "prefix ''uni'' cs"
proof -
  obtain e where e: "json_escape cs = CHR ''u'' # CHR ''n'' # CHR ''i'' # e"
    using assms by (auto simp: prefix_def)
  obtain c1 where c1: "cs = CHR ''u'' # c1" "CHR ''n'' # CHR ''i'' # e = json_escape c1"
    using json_escape_first [OF e] by (auto simp: backslash_def)
  obtain c2 where c2: "c1 = CHR ''n'' # c2" "CHR ''i'' # e = json_escape c2"
    using json_escape_first [OF c1(2) [symmetric]] by (auto simp: backslash_def)
  obtain c3 where c3: "c2 = CHR ''i'' # c3"
    using json_escape_first [OF c2(2) [symmetric]] by (auto simp: backslash_def)
  show ?thesis by (simp add: c1(1) c2(1) c3)
qed

lemma bad_uni_raises: "bad_uni s \<Longrightarrow> isl (correct_text s)"
proof (induction s rule: length_induct)
  case (1 s)
  then have bad: "bad_uni s" by simp
  then obtain c cs where s: "s = c # cs" by (cases s) auto
  show ?case
  proof (cases "prefix ''/uni'' s")
    case True
    then obtain t where t: "s = ''/uni'' @ t" by (auto simp: prefix_def)
    let ?R = "replace_uni (json_escape t)"
    have ct: "correct_text s = json_unescape (backslash # CHR ''u'' # ?R)"
      unfolding correct_text_def t json_escape_uni replace_uni_match ..
    show ?thesis
    proof (cases "four_hex_digits ?R")
      case False
      then show ?thesis
        using unescape_bad_escape [of ?R] by (simp add: ct del: json_unescape.simps)
    next
      case hex: True
      then obtain hs t' where h: "t = hs @ t'" "length hs = 4" "list_all is_hex hs"
        "?R = hs @ replace_uni (json_escape t')"
        using hex_prefix [of 4 t] by (auto simp: four_hex_digits_def)
      have "four_hex_digits t" using h by (simp add: four_hex_digits_def)
      then have "bad_uni t" using bad by (auto simp: t)
      then have "bad_uni t'" using bad_uni_hex [OF h(3)] by (simp add: h(1))
      moreover have "length t' < length s" by (simp add: t h(1))
      ultimately have "isl (correct_text t')" using 1 by blast
      then have "isl (json_unescape (replace_uni (json_escape t')))"
        by (simp add: correct_text_def)
      then have "isl (json_unescape (backslash # CHR ''u'' # hs @ replace_uni (json_escape t')))"
        using h(3) h(2) by (intro unescape_good_escape)
      then show ?thesis by (simp only: ct h(4))
    qed
  next
    case False
    then have "bad_uni cs" using bad by (auto simp: s)
    moreover have "length cs < length s" by (simp add: s)
    ultimately have "isl (correct_text cs)" using 1 by blast
    then have ih: "isl (json_unescape (replace_uni (json_escape cs)))"
      by (simp add: correct_text_def)
    show ?thesis
    proof (cases "c = CHR ''/''")
      case ne: False
      have "replace_uni (json_escape s) = escape_char c @ replace_uni (json_escape cs)"
        unfolding s json_escape_Cons
        by (rule replace_uni_no_slash) (rule escape_char_no_slash [OF ne])
      then show ?thesis using unescape_escape_char [OF ih, of c] by (simp add: correct_text_def)
    next
      case slash: True
      have "\<not> prefix ''uni'' cs" using False by (auto simp: s slash)
      then have np: "\<not> prefix ''uni'' (json_escape cs)" using json_escape_prefix_uni by blast
      have e: "json_escape s = CHR ''/'' # json_escape cs"
        by (simp add: s slash json_escape_Cons escape_char_def backslash_def quote_def)
      have "replace_uni (json_escape s) = CHR ''/'' # replace_uni (json_escape cs)"
        using np by (simp add: e)
      moreover have "isl (json_unescape (CHR ''/'' # replace_uni (json_escape cs)))"
        by (rule unescape_plain [OF _ ih]) (simp add: backslash_def)
      ultimately show ?thesis by (simp add: correct_text_def)
    qed
  qed
qed

lemma unicode_correction_raises:
  assumes "s \<in> set (concat (map table_texts tables))" and "isl (correct_text s)"
  shows "unicode_correction tables = Inl (Raised JSONDecodeError)"
proof -
  have "list_ex (\<lambda>s. isl (correct_text s)) (concat (map table_texts tables))"
    using assms unfolding list_ex_iff by blast
  then show ?thesis by (simp add: unicode_correction_def Let_def)
qed

text \<open>
  C10.  The run starts with the unicode correction: what it raises is what the run raises,
  and what it returns is what the tables are processed from.  The correction turns the text
  \<open>/uni0041\<close> into \<open>A\<close>.  Whenever a text of the input (a column label, a row key or a
  cell) has \<open>/uni\<close> somewhere without four hexadecimal digits right after it, the run
  raises the JSON decoding error and returns no ledger.
\<close>
theorem unicode_correction_first:
  "(unicode_correction tables_json = Inl e \<longrightarrow> process_tables_sequentially tables_json = Inl e)
   \<and> (unicode_correction tables_json = Inr tables \<longrightarrow>
        process_tables_sequentially tables_json
          = (case process_tables tables of Inl e \<Rightarrow> Inl (Raised e) | Inr out \<Rightarrow> Inr out))
   \<and> correct_text ''/uni0041'' = Inr [of_char (CHR ''A'')]
   \<and> corrected ''/uni0041'' = ''A''
   \<and> (s \<in> set (concat (map table_texts tables_json)) \<and> s = pre @ ''/uni'' @ post
        \<and> \<not> (4 \<le> length post \<and> list_all is_hex (take 4 post))
       \<longrightarrow> process_tables_sequentially tables_json = Inl (Raised JSONDecodeError))"
proof (intro conjI impI)
  assume "unicode_correction tables_json = Inl e"
  then show "process_tables_sequentially tables_json = Inl e"
    by (simp add: process_tables_sequentially_def)
next
  assume "unicode_correction tables_json = Inr tables"
  then show "process_tables_sequentially tables_json
          = (case process_tables tables of Inl e \<Rightarrow> Inl (Raised e) | Inr out \<Rightarrow> Inr out)"
    by (simp add: process_tables_sequentially_def)
next
  show "correct_text ''/uni0041'' = Inr [of_char (CHR ''A'')]" by code_simp
next
  show "corrected ''/uni0041'' = ''A''" by code_simp
next
  assume a: "s \<in> set (concat (map table_texts tables_json)) \<and> s = pre @ ''/uni'' @ post
        \<and> \<not> (4 \<le> length post \<and> list_all is_hex (take 4 post))"
  then have "\<not> four_hex_digits post" by (simp add: four_hex_digits_def)
  then have "bad_uni (pre @ ''/uni'' @ post)" by (rule bad_uni_occurrence)
  then have "isl (correct_text s)" using a bad_uni_raises by blast
  then have "unicode_correction tables_json = Inl (Raised JSONDecodeError)"
    using a unicode_correction_raises by blast
  then show "process_tables_sequentially tables_json = Inl (Raised JSONDecodeError)"
    by (simp add: process_tables_sequentially_def)
qed

theorem unicode_correction_first_witness:
  "''see /unicorn'' \<in> set (concat (map table_texts [unicorn_page]))
   \<and> ''see /unicorn'' = ''see '' @ ''/uni'' @ ''corn''
   \<and> \<not> (4 \<le> length ''corn'' \<and> list_all is_hex (take 4 ''corn''))
   \<and> process_tables_sequentially [unicorn_page] = Inl (Raised JSONDecodeError)
   \<and> unicode_correction [escaped_page] = Inr [plain_page]
   \<and> process_tables_sequentially [escaped_page]
       = (case process_tables [plain_page] of Inl e \<Rightarrow> Inl (Raised e) | Inr out \<Rightarrow> Inr out)"
proof -
  have h1: "''see /unicorn'' \<in> set (concat (map table_texts [unicorn_page]))" by code_simp
  have h2: "''see /unicorn'' = ''see '' @ ''/uni'' @ ''corn''" by simp
  have h3: "\<not> (4 \<le> length ''corn'' \<and> list_all is_hex (take 4 ''corn''))" by code_simp
  have h4: "unicode_correction [escaped_page] = Inr [plain_page]" by code_simp
  note t1 = unicode_correction_first [of "[unicorn_page]" _ _ "''see /unicorn''" "''see ''" "''corn''"]
  note t2 = unicode_correction_first [of "[escaped_page]" _ "[plain_page]"]
  have a: "process_tables_sequentially [unicorn_page] = Inl (Raised JSONDecodeError)"
    using t1 h1 h2 h3 by blast
  have b: "process_tables_sequentially [escaped_page]
       = (case process_tables [plain_page] of Inl e \<Rightarrow> Inl (Raised e) | Inr out \<Rightarrow> Inr out)"
    using t2 h4 by blast
  from h1 h2 h3 a h4 b show ?thesis by (intro conjI)
qed

end
